theory Spec2Isabelle
  imports Complex_Main "HOL-Library.AList" "HOL-Library.Multiset"
begin

section \<open>JavaScript numbers\<close>

text \<open>
  A JavaScript \<open>number\<close> is an IEEE 754 double. The model keeps the three special
  values apart from the finite ones, which are real numbers. Where a special value comes
  from is modelled: a division by zero, the minimum or maximum of no arguments, and an
  invalid \<open>Date\<close>. The operations \<open>js_sub\<close>, \<open>js_mul\<close> and \<open>js_div\<close> below and the sums
  of the Metrics Aggregator and of the Anomaly Detector compute exactly on the finite
  values. The Recurring Charge, Spending Spike and Trend Detectors compare sums, means
  and ratios of the amounts with thresholds, and there the rounding of every operation
  decides: their arithmetic is modelled with the operations \<open>Number_add\<close>,
  \<open>Number_subtract\<close>, \<open>Number_multiply\<close> and \<open>Number_divide\<close>, which round as the
  doubles do. Overflow to infinity (magnitudes from \<open>2^1024\<close> on) and the sign of zero
  are not modelled.
\<close>

datatype jsnum = Num real | PosInfinity | NegInfinity | NaN

text \<open>
  Rounding to the nearest double, ties to even. A double has a significand of 53 bits:
  in the binade \<open>2^e \<le> |x| < 2^(e+1)\<close> the doubles are the multiples of \<open>2^(e-52)\<close>, and
  below \<open>2^(-1022)\<close> (the subnormal numbers) they are the multiples of \<open>2^(-1074)\<close>.
\<close>

definition round_ties_even :: "real \<Rightarrow> int" where
  "round_ties_even x =
     (let n = \<lfloor>x\<rfloor>; r = x - of_int n
      in if r < 1 / 2 then n else if 1 / 2 < r then n + 1 else if even n then n else n + 1)"

definition binade :: "real \<Rightarrow> int" where
  "binade x = max \<lfloor>log 2 \<bar>x\<bar>\<rfloor> (- 1022)"

definition round_double :: "real \<Rightarrow> real" where
  "round_double x =
     (if x = 0 then 0
      else of_int (round_ties_even (x / 2 powi (binade x - 52))) * 2 powi (binade x - 52))"

text \<open>\<open>a + b\<close>, \<open>a - b\<close>, \<open>a * b\<close> and \<open>a / b\<close> (for \<open>b\<close> other than 0) on finite doubles:
  the exact result, rounded.\<close>

definition Number_add :: "real \<Rightarrow> real \<Rightarrow> real" where
  "Number_add a b = round_double (a + b)"

definition Number_subtract :: "real \<Rightarrow> real \<Rightarrow> real" where
  "Number_subtract a b = round_double (a - b)"

definition Number_multiply :: "real \<Rightarrow> real \<Rightarrow> real" where
  "Number_multiply a b = round_double (a * b)"

definition Number_divide :: "real \<Rightarrow> real \<Rightarrow> real" where
  "Number_divide a b = round_double (a / b)"

text \<open>\<open>xs.reduce((a, b) => a + b, 0)\<close> on doubles: every partial sum is rounded.\<close>

definition Number_sum :: "real list \<Rightarrow> real" where
  "Number_sum xs = foldl Number_add 0 xs"

text \<open>The rounding of a result that may be a special value.\<close>

definition round_num :: "jsnum \<Rightarrow> jsnum" where
  "round_num x = (case x of Num r \<Rightarrow> Num (round_double r) | _ \<Rightarrow> x)"

fun js_sub :: "jsnum \<Rightarrow> jsnum \<Rightarrow> jsnum" where
  "js_sub (Num a) (Num b) = Num (a - b)"
| "js_sub NaN _ = NaN"
| "js_sub _ NaN = NaN"
| "js_sub PosInfinity PosInfinity = NaN"
| "js_sub NegInfinity NegInfinity = NaN"
| "js_sub PosInfinity _ = PosInfinity"
| "js_sub NegInfinity _ = NegInfinity"
| "js_sub (Num a) PosInfinity = NegInfinity"
| "js_sub (Num a) NegInfinity = PosInfinity"

fun js_mul :: "jsnum \<Rightarrow> jsnum \<Rightarrow> jsnum" where
  "js_mul (Num a) (Num b) = Num (a * b)"
| "js_mul NaN _ = NaN"
| "js_mul _ NaN = NaN"
| "js_mul PosInfinity (Num b) = (if b = 0 then NaN else if 0 < b then PosInfinity else NegInfinity)"
| "js_mul NegInfinity (Num b) = (if b = 0 then NaN else if 0 < b then NegInfinity else PosInfinity)"
| "js_mul (Num a) PosInfinity = (if a = 0 then NaN else if 0 < a then PosInfinity else NegInfinity)"
| "js_mul (Num a) NegInfinity = (if a = 0 then NaN else if 0 < a then NegInfinity else PosInfinity)"
| "js_mul PosInfinity PosInfinity = PosInfinity"
| "js_mul NegInfinity NegInfinity = PosInfinity"
| "js_mul PosInfinity NegInfinity = NegInfinity"
| "js_mul NegInfinity PosInfinity = NegInfinity"

text \<open>Division: \<open>x / 0\<close> is an infinity of the sign of \<open>x\<close>, and \<open>0 / 0\<close> is \<open>NaN\<close>.\<close>

fun js_div :: "jsnum \<Rightarrow> jsnum \<Rightarrow> jsnum" where
  "js_div (Num a) (Num b) =
     (if b \<noteq> 0 then Num (a / b)
      else if a = 0 then NaN else if 0 < a then PosInfinity else NegInfinity)"
| "js_div NaN _ = NaN"
| "js_div _ NaN = NaN"
| "js_div (Num a) PosInfinity = Num 0"
| "js_div (Num a) NegInfinity = Num 0"
| "js_div PosInfinity (Num b) = (if 0 \<le> b then PosInfinity else NegInfinity)"
| "js_div NegInfinity (Num b) = (if 0 \<le> b then NegInfinity else PosInfinity)"
| "js_div PosInfinity _ = NaN"
| "js_div NegInfinity _ = NaN"

fun Math_abs :: "jsnum \<Rightarrow> jsnum" where
  "Math_abs (Num a) = Num \<bar>a\<bar>"
| "Math_abs PosInfinity = PosInfinity"
| "Math_abs NegInfinity = PosInfinity"
| "Math_abs NaN = NaN"

text \<open>\<open>a > b\<close>: every comparison with \<open>NaN\<close> is false.\<close>

fun js_gt :: "jsnum \<Rightarrow> jsnum \<Rightarrow> bool" where
  "js_gt (Num a) (Num b) = (b < a)"
| "js_gt NaN _ = False"
| "js_gt _ NaN = False"
| "js_gt PosInfinity PosInfinity = False"
| "js_gt PosInfinity _ = True"
| "js_gt NegInfinity _ = False"
| "js_gt (Num a) PosInfinity = False"
| "js_gt (Num a) NegInfinity = True"

text \<open>\<open>a || b\<close> on numbers: \<open>0\<close> and \<open>NaN\<close> are falsy.\<close>

fun js_or :: "jsnum \<Rightarrow> jsnum \<Rightarrow> jsnum" where
  "js_or (Num a) b = (if a = 0 then b else Num a)"
| "js_or NaN b = b"
| "js_or PosInfinity b = PosInfinity"
| "js_or NegInfinity b = NegInfinity"

fun js_min2 :: "jsnum \<Rightarrow> jsnum \<Rightarrow> jsnum" where
  "js_min2 (Num a) (Num b) = Num (min a b)"
| "js_min2 NaN _ = NaN"
| "js_min2 _ NaN = NaN"
| "js_min2 NegInfinity _ = NegInfinity"
| "js_min2 _ NegInfinity = NegInfinity"
| "js_min2 PosInfinity b = b"
| "js_min2 a PosInfinity = a"

fun js_max2 :: "jsnum \<Rightarrow> jsnum \<Rightarrow> jsnum" where
  "js_max2 (Num a) (Num b) = Num (max a b)"
| "js_max2 NaN _ = NaN"
| "js_max2 _ NaN = NaN"
| "js_max2 PosInfinity _ = PosInfinity"
| "js_max2 _ PosInfinity = PosInfinity"
| "js_max2 NegInfinity b = b"
| "js_max2 a NegInfinity = a"

text \<open>\<open>Math.min(...xs)\<close> and \<open>Math.max(...xs)\<close>: with no argument they are
  \<open>Infinity\<close> and \<open>-Infinity\<close>.\<close>

definition Math_min :: "jsnum list \<Rightarrow> jsnum" where
  "Math_min xs = foldl js_min2 PosInfinity xs"

definition Math_max :: "jsnum list \<Rightarrow> jsnum" where
  "Math_max xs = foldl js_max2 NegInfinity xs"

definition is_finite :: "jsnum \<Rightarrow> bool" where
  "is_finite x = (case x of Num _ \<Rightarrow> True | _ \<Rightarrow> False)"

text \<open>\<open>xs.reduce((a, b) => a + b, 0)\<close> on finite numbers, computed exactly.\<close>

definition reduce_add :: "real list \<Rightarrow> real" where
  "reduce_add xs = foldl (\<lambda>a b. a + b) 0 xs"

section \<open>Dates\<close>

text \<open>
  A \<open>Date\<close> is read through three of its methods only: \<open>getTime()\<close> (milliseconds since
  the epoch), \<open>getFullYear()\<close> and \<open>getMonth()\<close> (0 to 11, local time). The record holds
  what they return. The dates are valid ones (the loader rejects a date whose time is
  \<open>NaN\<close>), so \<open>getTime\<close> is an integer.
\<close>

record JSDate =
  getTime :: int
  getFullYear :: int
  getMonth :: nat

text \<open>\<open>new Date(t).getTime()\<close>: the time value is clipped, a non-finite or too large
  \<open>t\<close> gives an invalid date, whose time is \<open>NaN\<close>; otherwise \<open>t\<close> is truncated to
  an integer.\<close>

definition TimeClip :: "jsnum \<Rightarrow> jsnum" where
  "TimeClip t =
     (case t of
        Num r \<Rightarrow> if 8640000000000000 < \<bar>r\<bar> then NaN
                 else Num (of_int (if 0 \<le> r then \<lfloor>r\<rfloor> else \<lceil>r\<rceil>))
      | _ \<Rightarrow> NaN)"

definition valid_Date :: "JSDate \<Rightarrow> bool" where
  "valid_Date d = (\<bar>getTime d\<bar> \<le> 8640000000000000 \<and> getMonth d < 12)"

section \<open>Data model (types/index.ts)\<close>

datatype SpendingCategory =
  Food_Dining | Transportation | Shopping | Entertainment | Bills_Utilities
  | Healthcare | Housing | Income | Other


text \<open>The amounts are finite numbers: the loader takes the absolute value of the parsed
  amount and rejects \<open>NaN\<close>.\<close>

record CategorizedTransaction =
  date :: JSDate
  description :: string
  amount :: real
  isIncome :: bool
  category :: SpendingCategory
  confidence :: real

datatype PatternType = recurring_charge | spending_spike | anomaly | trend

datatype Severity = low | medium | high

datatype Direction = increasing | decreasing

text \<open>
  The description of a pattern is a template string with numbers printed by \<open>toFixed\<close>.
  The model keeps which template it is and the values that fill it, not the printed text.
\<close>

datatype PatternDescription =
  RecurringMonthlyCharge string real
  | SpendingSpikeIn SpendingCategory real real
  | UnusualLargeTransaction string real
  | SpendingOverTime Direction jsnum

record DetectedPattern =
  ptype :: PatternType
  pdescription :: PatternDescription
  transactions :: "CategorizedTransaction list"
  severity :: Severity
  impact :: real

record CategoryBreakdown =
  bcategory :: SpendingCategory
  total :: real
  percentage :: jsnum
  transactionCount :: nat

record FinancialMetrics =
  totalSpending :: real
  totalIncome :: real
  netCashFlow :: real
  averageDaily :: jsnum
  averageMonthly :: jsnum
  categoryBreakdown :: "CategoryBreakdown list"

section \<open>Maps and sorting\<close>

text \<open>
  A JavaScript \<open>Map\<close> iterates in insertion order, and \<open>set\<close> on a key that is present
  keeps its place: an association list with \<open>AList.update\<close>. The code fills its maps
  with one idiom, \<open>const cur = m.get(k) || dflt; m.set(k, f(cur))\<close>. The stored values
  are arrays and maps, which are truthy, or numbers with \<open>dflt = 0\<close>, where the only
  falsy stored value is \<open>0\<close> itself: \<open>||\<close> takes \<open>dflt\<close> exactly when the key is absent.
\<close>

definition Map_upsert :: "('k \<times> 'v) list \<Rightarrow> 'k \<Rightarrow> 'v \<Rightarrow> ('v \<Rightarrow> 'v) \<Rightarrow> ('k \<times> 'v) list" where
  "Map_upsert m k dflt f =
     AList.update k (f (case map_of m k of None \<Rightarrow> dflt | Some v \<Rightarrow> v)) m"

text \<open>
  \<open>Array.prototype.sort(cmp)\<close> is a stable sort: for a consistent comparator every
  stable sort returns the same array, here the one of insertion sort. An element moves
  behind another one only where \<open>cmp\<close> is positive.
\<close>

fun insert_sorted :: "('a \<Rightarrow> 'a \<Rightarrow> real) \<Rightarrow> 'a \<Rightarrow> 'a list \<Rightarrow> 'a list" where
  "insert_sorted cmp x [] = [x]"
| "insert_sorted cmp x (y # ys) =
     (if 0 < cmp x y then y # insert_sorted cmp x ys else x # y # ys)"

definition Array_sort :: "('a \<Rightarrow> 'a \<Rightarrow> real) \<Rightarrow> 'a list \<Rightarrow> 'a list" where
  "Array_sort cmp xs = foldr (insert_sorted cmp) xs []"

section \<open>FinancialCalculator\<close>

definition calculateCategoryBreakdown :: "CategorizedTransaction list \<Rightarrow> CategoryBreakdown list" where
  "calculateCategoryBreakdown expenses =
     (let categoryTotals =
            foldl (\<lambda>m t. Map_upsert m (category t) 0 (\<lambda>currentTotal. currentTotal + amount t))
              [] expenses;
          categoryCounts =
            foldl (\<lambda>m t. Map_upsert m (category t) (0::nat) (\<lambda>currentCount. currentCount + 1))
              [] expenses;
          totalSpending = foldl (\<lambda>sum t. sum + amount t) 0 expenses;
          breakdown =
            map (\<lambda>(category, total).
                   \<lparr> bcategory = category,
                     total = total,
                     percentage = js_mul (js_div (Num total) (Num totalSpending)) (Num 100),
                     transactionCount =
                       (case map_of categoryCounts category of None \<Rightarrow> 0 | Some c \<Rightarrow> c) \<rparr>)
              categoryTotals
      in Array_sort (\<lambda>a b. total b - total a) breakdown)"

definition calculateMetrics :: "CategorizedTransaction list \<Rightarrow> FinancialMetrics" where
  "calculateMetrics txs =
     (let income = filter (\<lambda>t. isIncome t) txs;
          expenses = filter (\<lambda>t. \<not> isIncome t) txs;
          totalIncome = foldl (\<lambda>sum t. sum + amount t) 0 income;
          totalSpending = foldl (\<lambda>sum t. sum + amount t) 0 expenses;
          netCashFlow = totalIncome - totalSpending;
          dates = map (\<lambda>t. Num (of_int (getTime (date t)))) txs;
          minDate = TimeClip (Math_min dates);
          maxDate = TimeClip (Math_max dates);
          daysDiff = js_div (js_sub maxDate minDate) (Num (1000 * 60 * 60 * 24));
          monthsDiff = js_div daysDiff (Num 30);
          averageDaily = js_div (Num totalSpending) (js_or daysDiff (Num 1));
          averageMonthly = js_div (Num totalSpending) (js_or monthsDiff (Num 1));
          categoryBreakdown = calculateCategoryBreakdown expenses
      in \<lparr> totalSpending = totalSpending,
           totalIncome = totalIncome,
           netCashFlow = netCashFlow,
           averageDaily = averageDaily,
           averageMonthly = averageMonthly,
           categoryBreakdown = categoryBreakdown \<rparr>)"

section \<open>Strings\<close>

text \<open>
  Descriptions are strings of 8-bit characters (Latin-1). \<open>toLowerCase\<close> moves the
  upper-case letters to the lower-case ones; \<open>\d\<close> is an ASCII digit; \<open>\s\<close> and
  \<open>trim\<close> take tab, line feed, vertical tab, form feed, carriage return, space and the
  no-break space as white space.
\<close>

definition lower_char :: "char \<Rightarrow> char" where
  "lower_char c =
     (let n = (of_char c :: nat)
      in if (65 \<le> n \<and> n \<le> 90) \<or> (192 \<le> n \<and> n \<le> 222 \<and> n \<noteq> 215)
         then char_of (n + 32) else c)"

definition toLowerCase :: "string \<Rightarrow> string" where
  "toLowerCase s = map lower_char s"

definition is_digit :: "char \<Rightarrow> bool" where
  "is_digit c = (48 \<le> (of_char c :: nat) \<and> (of_char c :: nat) \<le> 57)"

definition is_a_to_z :: "char \<Rightarrow> bool" where
  "is_a_to_z c = (97 \<le> (of_char c :: nat) \<and> (of_char c :: nat) \<le> 122)"

definition is_space :: "char \<Rightarrow> bool" where
  "is_space c = ((of_char c :: nat) \<in> {9, 10, 11, 12, 13, 32, 160})"

definition trim :: "string \<Rightarrow> string" where
  "trim s = rev (dropWhile is_space (rev (dropWhile is_space s)))"

text \<open>\<open>s.split(/\s+/)\<close>: the pieces between the maximal runs of white space; \<open>cur\<close>
  holds the piece being read, reversed.\<close>

function split_spaces :: "string \<Rightarrow> string \<Rightarrow> string list" where
  "split_spaces cur [] = [rev cur]"
| "split_spaces cur (c # cs) =
     (if is_space c then rev cur # split_spaces [] (dropWhile is_space cs)
      else split_spaces (c # cur) cs)"
  by pat_completeness auto
termination
  by (relation "measure (\<lambda>(cur, s). length s)") (auto simp: less_Suc_eq_le length_dropWhile_le)

fun join :: "string \<Rightarrow> string list \<Rightarrow> string" where
  "join sep [] = []"
| "join sep [x] = x"
| "join sep (x # y # ys) = x @ sep @ join sep (y # ys)"

text \<open>\<open>String(n)\<close> of an integer, as a template literal prints it, and
  \<open>padStart(2, "0")\<close>.\<close>

fun nat_to_string :: "nat \<Rightarrow> string" where
  "nat_to_string n =
     (if n < 10 then [char_of (48 + n)]
      else nat_to_string (n div 10) @ [char_of (48 + n mod 10)])"

definition int_to_string :: "int \<Rightarrow> string" where
  "int_to_string i =
     (if i < 0 then CHR ''-'' # nat_to_string (nat (- i)) else nat_to_string (nat i))"

definition padStart2 :: "string \<Rightarrow> string" where
  "padStart2 s = replicate (2 - length s) CHR ''0'' @ s"

text \<open>
  \<open>a.localeCompare(b)\<close> is only applied to month keys, which consist of digits and
  \<open>-\<close>. On these the collation order is the lexicographic order of the character codes.
\<close>

fun localeCompare :: "string \<Rightarrow> string \<Rightarrow> real" where
  "localeCompare [] [] = 0"
| "localeCompare [] (b # bs) = - 1"
| "localeCompare (a # as) [] = 1"
| "localeCompare (a # as) (b # bs) =
     (if (of_char a :: nat) < of_char b then - 1
      else if (of_char b :: nat) < of_char a then 1
      else localeCompare as bs)"

section \<open>PatternDetector\<close>

definition normalizeDescription :: "string \<Rightarrow> string" where
  "normalizeDescription desc =
     join '' ''
       (take 3
         (split_spaces []
           (trim
             (filter (\<lambda>c. is_a_to_z c \<or> is_space c)
               (filter (\<lambda>c. \<not> is_digit c)
                 (toLowerCase desc))))))"

text \<open>The body of the loop over \<open>descriptionGroups\<close>: what one group pushes. The literal
  \<open>0.1\<close> is the double nearest to one tenth; the other literals are doubles as written.\<close>

definition recurringGroup :: "string \<Rightarrow> CategorizedTransaction list \<Rightarrow> DetectedPattern list" where
  "recurringGroup desc txns =
     (if 2 \<le> length txns then
        let amounts = map amount txns;
            avgAmount = Number_divide (Number_sum amounts) (real (length amounts));
            variance = list_all (\<lambda>amt. \<bar>Number_subtract amt avgAmount\<bar>
                                        < Number_multiply avgAmount (round_double 0.1)) amounts
        in if variance then
             let dates = Array_sort (\<lambda>a b. Number_subtract a b)
                           (map (\<lambda>t. real_of_int (getTime (date t))) txns);
                 intervals = map (\<lambda>i. Number_subtract (dates ! i) (dates ! (i - 1))) [1 ..< length dates];
                 avgInterval = Number_divide (Number_sum intervals) (real (length intervals));
                 daysInterval = Number_divide avgInterval (1000 * 60 * 60 * 24)
             in if 25 \<le> daysInterval \<and> daysInterval \<le> 35 then
                  [\<lparr> ptype = recurring_charge,
                     pdescription = RecurringMonthlyCharge desc avgAmount,
                     transactions = txns,
                     severity = (if 50 < avgAmount then medium else low),
                     impact = Number_multiply avgAmount 12 \<rparr>]
                else []
           else []
      else [])"

definition descriptionGroups :: "CategorizedTransaction list \<Rightarrow> (string \<times> CategorizedTransaction list) list" where
  "descriptionGroups txs =
     foldl (\<lambda>m t. let normalized = normalizeDescription (description t)
                   in Map_upsert m normalized [] (\<lambda>existing. existing @ [t]))
       [] txs"

definition findRecurringCharges :: "CategorizedTransaction list \<Rightarrow> DetectedPattern list" where
  "findRecurringCharges txs =
     concat (map (\<lambda>(desc, txns). recurringGroup desc txns) (descriptionGroups txs))"

definition spikeMonthKey :: "JSDate \<Rightarrow> string" where
  "spikeMonthKey d = int_to_string (getFullYear d) @ ''-'' @ nat_to_string (getMonth d)"

definition monthlyByCategory ::
  "CategorizedTransaction list \<Rightarrow> (string \<times> (SpendingCategory \<times> CategorizedTransaction list) list) list" where
  "monthlyByCategory txs =
     foldl (\<lambda>m t. if isIncome t then m
                   else let monthKey = spikeMonthKey (date t)
                        in Map_upsert m monthKey []
                             (\<lambda>categoryMap. Map_upsert categoryMap (category t) [] (\<lambda>txns. txns @ [t])))
       [] txs"

definition categoryMonthlyTotals :: "CategorizedTransaction list \<Rightarrow> (SpendingCategory \<times> real list) list" where
  "categoryMonthlyTotals txs =
     foldl (\<lambda>m (category, txns).
              let total = foldl (\<lambda>sum t. Number_add sum (amount t)) 0 txns
              in Map_upsert m category [] (\<lambda>totals. totals @ [total]))
       [] (concat (map snd (monthlyByCategory txs)))"

text \<open>The body of the loop over \<open>categoryMonthlyTotals\<close>. \<open>Math.max(...totals)\<close> is taken
  of at least two finite numbers there.\<close>

definition spikeOfCategory :: "SpendingCategory \<Rightarrow> real list \<Rightarrow> DetectedPattern list" where
  "spikeOfCategory cat totals =
     (if length totals < 2 then []
      else let avg = Number_divide (Number_sum totals) (real (length totals));
               max = Max (set totals)
           in if Number_multiply avg 1.5 < max then
                let spikeAmount = Number_subtract max avg
                in [\<lparr> ptype = spending_spike,
                      pdescription = SpendingSpikeIn cat max avg,
                      transactions = [],
                      severity = (if 500 < spikeAmount then high else medium),
                      impact = spikeAmount \<rparr>]
              else [])"

definition findSpendingSpikes :: "CategorizedTransaction list \<Rightarrow> DetectedPattern list" where
  "findSpendingSpikes txs =
     concat (map (\<lambda>(category, totals). spikeOfCategory category totals) (categoryMonthlyTotals txs))"

definition recurringDescriptions :: "DetectedPattern list \<Rightarrow> string set" where
  "recurringDescriptions recurringPatterns =
     set (concat (map (\<lambda>pattern. map (\<lambda>t. normalizeDescription (description t)) (transactions pattern))
                    recurringPatterns))"

definition findAnomalies :: "CategorizedTransaction list \<Rightarrow> DetectedPattern list \<Rightarrow> DetectedPattern list" where
  "findAnomalies txs recurringPatterns =
     (let amounts = map amount (filter (\<lambda>t. \<not> isIncome t) txs)
      in if length amounts = 0 then []
         else let avg = reduce_add amounts / real (length amounts);
                  stdDev = sqrt (foldl (\<lambda>sum amt. sum + (amt - avg)\<^sup>2) 0 amounts / real (length amounts))
              in concat (map (\<lambda>t.
                   if isIncome t then []
                   else let normalized = normalizeDescription (description t)
                        in if normalized \<in> recurringDescriptions recurringPatterns then []
                           else if avg + 3 * stdDev < amount t then
                                  [\<lparr> ptype = anomaly,
                                     pdescription = UnusualLargeTransaction (description t) (amount t),
                                     transactions = [t],
                                     severity = (if 1000 < amount t then high else medium),
                                     impact = amount t \<rparr>]
                                else []) txs))"

definition trendMonthKey :: "JSDate \<Rightarrow> string" where
  "trendMonthKey d = int_to_string (getFullYear d) @ ''-'' @ padStart2 (nat_to_string (getMonth d + 1))"

definition monthlyTotals :: "CategorizedTransaction list \<Rightarrow> (string \<times> real) list" where
  "monthlyTotals txs =
     foldl (\<lambda>m t. if isIncome t then m
                   else let monthKey = trendMonthKey (date t)
                        in Map_upsert m monthKey 0 (\<lambda>current. Number_add current (amount t)))
       [] txs"

definition findTrends :: "CategorizedTransaction list \<Rightarrow> DetectedPattern list" where
  "findTrends txs =
     (if length (monthlyTotals txs) < 2 then []
      else let sortedMonths = Array_sort (\<lambda>a b. localeCompare (fst a) (fst b)) (monthlyTotals txs);
               firstMonth = snd (hd sortedMonths);
               lastMonth = snd (last sortedMonths);
               change = Number_subtract lastMonth firstMonth;
               percentChange =
                 round_num (js_mul (round_num (js_div (Num change) (Num firstMonth))) (Num 100))
           in if js_gt (Math_abs percentChange) (Num 15) then
                let direction = (if 0 < change then increasing else decreasing)
                in [\<lparr> ptype = trend,
                      pdescription = SpendingOverTime direction (Math_abs percentChange),
                      transactions = [],
                      severity = (if js_gt (Math_abs percentChange) (Num 30) then high else medium),
                      impact = \<bar>change\<bar> \<rparr>]
              else [])"

definition detectPatterns :: "CategorizedTransaction list \<Rightarrow> DetectedPattern list" where
  "detectPatterns txs =
     (let recurringPatterns = findRecurringCharges txs;
          patterns = recurringPatterns
                     @ findAnomalies txs recurringPatterns
                     @ findSpendingSpikes txs
                     @ findTrends txs
      in Array_sort (\<lambda>a b. impact b - impact a) patterns)"

section \<open>Notions used to state the properties\<close>

text \<open>The distinct elements of a list, in the order of their first occurrence: the order
  in which a \<open>Map\<close> filled from the list iterates over its keys.\<close>

definition first_seen :: "'a list \<Rightarrow> 'a list" where
  "first_seen xs = rev (remdups (rev xs))"

text \<open>A transaction on a given day of the year 2024, counted from 1 January (day 0),
  at midnight, with the month it falls in (the local time zone being UTC).\<close>

definition on_day :: "int \<Rightarrow> nat \<Rightarrow> string \<Rightarrow> real \<Rightarrow> bool \<Rightarrow> SpendingCategory \<Rightarrow> CategorizedTransaction" where
  "on_day d m desc a inc c =
     \<lparr> date = \<lparr> getTime = 1704067200000 + d * 86400000, getFullYear = 2024, getMonth = m \<rparr>,
       description = desc, amount = a, isIncome = inc, category = c, confidence = 1 \<rparr>"

text \<open>A salary of 3000, deposited on 1 January and on 31 January.\<close>

definition salary_deposits :: "CategorizedTransaction list" where
  "salary_deposits =
     [on_day 0 0 ''Salary'' 3000 True Income, on_day 30 0 ''Salary'' 3000 True Income]"

text \<open>One expense of amount 0 (the loader reads a row without an amount as 0).\<close>

definition free_sample :: "CategorizedTransaction list" where
  "free_sample = [on_day 0 0 ''Free sample'' 0 False Other]"

definition zero_metrics :: FinancialMetrics where
  "zero_metrics =
     \<lparr> totalSpending = 0, totalIncome = 0, netCashFlow = 0,
       averageDaily = Num 0, averageMonthly = Num 0, categoryBreakdown = [] \<rparr>"

text \<open>
  A rent of 1715 charged twice, 30 days apart, 48 lunches of 15 and one laptop of 1715:
  the mean of the expenses is 115 and their standard deviation 400, so that 1715 exceeds
  the mean by more than three standard deviations.
\<close>

definition laptop :: CategorizedTransaction where
  "laptop = on_day 40 1 ''Laptop'' 1715 False Shopping"

definition rent_charges :: "CategorizedTransaction list" where
  "rent_charges =
     [on_day 0 0 ''Rent'' 1715 False Housing, on_day 30 0 ''Rent'' 1715 False Housing]"

definition rent_and_laptop :: "CategorizedTransaction list" where
  "rent_and_laptop =
     on_day 0 0 ''Rent'' 1715 False Housing
     # replicate 48 (on_day 3 0 ''Lunch'' 15 False Food_Dining)
     @ [on_day 30 0 ''Rent'' 1715 False Housing, laptop]"

definition laptop_anomaly :: DetectedPattern where
  "laptop_anomaly =
     \<lparr> ptype = anomaly, pdescription = UnusualLargeTransaction ''Laptop'' 1715,
       transactions = [laptop], severity = high, impact = 1715 \<rparr>"

text \<open>The expense transactions, and the total of the expenses of one category.\<close>

definition expensesOf :: "CategorizedTransaction list \<Rightarrow> CategorizedTransaction list" where
  "expensesOf txs = filter (\<lambda>t. \<not> isIncome t) txs"


text \<open>The time between the earliest and the latest transaction, in days, as a fraction.\<close>

definition daysDiffOf :: "CategorizedTransaction list \<Rightarrow> real" where
  "daysDiffOf txs =
     real_of_int (Max ((\<lambda>t. getTime (date t)) ` set txs) - Min ((\<lambda>t. getTime (date t)) ` set txs))
       / (1000 * 60 * 60 * 24)"

text \<open>
  The averages as the specification words them: \<open>dateSpanDays\<close> is the larger of 1 and
  the difference in whole days, the daily average divides by it, and the monthly average
  divides by the larger of 1 and \<open>dateSpanDays / 30\<close>.
\<close>

definition spec_dateSpanDays :: "CategorizedTransaction list \<Rightarrow> real" where
  "spec_dateSpanDays txs =
     max 1 (real_of_int ((Max ((\<lambda>t. getTime (date t)) ` set txs)
                           - Min ((\<lambda>t. getTime (date t)) ` set txs)) div 86400000))"

definition spec_averageDaily :: "CategorizedTransaction list \<Rightarrow> real" where
  "spec_averageDaily txs = sum_list (map amount (expensesOf txs)) / spec_dateSpanDays txs"

definition spec_averageMonthly :: "CategorizedTransaction list \<Rightarrow> real" where
  "spec_averageMonthly txs =
     sum_list (map amount (expensesOf txs)) / max 1 (spec_dateSpanDays txs / 30)"

text \<open>Two expenses of 30, in different categories, 15 days apart; and the same two
  expenses 12 hours apart.\<close>

definition fortnight :: "CategorizedTransaction list" where
  "fortnight =
     [on_day 0 0 ''Shoes'' 30 False Shopping, on_day 15 0 ''Dinner'' 30 False Food_Dining]"

definition same_day :: "CategorizedTransaction list" where
  "same_day =
     [on_day 0 0 ''Shoes'' 30 False Shopping,
      (on_day 0 0 ''Dinner'' 30 False Food_Dining)
        \<lparr> date := \<lparr> getTime = 1704067200000 + 43200000, getFullYear = 2024, getMonth = 0 \<rparr> \<rparr>]"


text \<open>
  The groups of the Recurring Charge Detector: the normalized descriptions in the order of
  first occurrence, the transactions of one normalized description, the mean amount of
  a group, and the average gap, in days, between consecutive dates of a group sorted
  ascending. The mean and the average gap are the ones of the doubles: the sum is
  accumulated from the left and every sum, difference and quotient is rounded.
\<close>

definition recurringKeys :: "CategorizedTransaction list \<Rightarrow> string list" where
  "recurringKeys txs = first_seen (map (\<lambda>t. normalizeDescription (description t)) txs)"

definition groupOf :: "CategorizedTransaction list \<Rightarrow> string \<Rightarrow> CategorizedTransaction list" where
  "groupOf txs k = filter (\<lambda>t. normalizeDescription (description t) = k) txs"

definition groupMean :: "CategorizedTransaction list \<Rightarrow> real" where
  "groupMean g = Number_divide (Number_sum (map amount g)) (real (length g))"

definition averageGapDays :: "CategorizedTransaction list \<Rightarrow> real" where
  "averageGapDays g =
     (let ds = sort (map (\<lambda>t. real_of_int (getTime (date t))) g);
          gaps = map (\<lambda>i. Number_subtract (ds ! i) (ds ! (i - 1))) [1 ..< length ds]
      in Number_divide (Number_divide (Number_sum gaps) (real (length gaps))) 86400000)"

text \<open>
  The two tests as the specification words them, in exact arithmetic: the mean of a list
  of numbers, every amount within 10% of the group mean (the bound included), and the
  average gap in days.
\<close>

definition spec_mean :: "real list \<Rightarrow> real" where
  "spec_mean xs = sum_list xs / real (length xs)"

definition spec_within_10_percent :: "CategorizedTransaction list \<Rightarrow> bool" where
  "spec_within_10_percent g =
     list_all (\<lambda>t. \<bar>amount t - spec_mean (map amount g)\<bar> \<le> 0.1 * spec_mean (map amount g)) g"

definition spec_averageGapDays :: "CategorizedTransaction list \<Rightarrow> real" where
  "spec_averageGapDays g =
     (let ds = sort (map (\<lambda>t. real_of_int (getTime (date t))) g);
          gaps = map (\<lambda>i. ds ! i - ds ! (i - 1)) [1 ..< length ds]
      in spec_mean gaps / 86400000)"

text \<open>Two charges of 0 for a free trial, two gym fees of 90 and 110 (each exactly 10%
  from their mean of 100) and two Netflix charges of 15, each pair 30 days apart.\<close>

definition free_trial :: "CategorizedTransaction list" where
  "free_trial =
     [on_day 0 0 ''Free trial'' 0 False Entertainment,
      on_day 30 0 ''Free trial'' 0 False Entertainment]"

definition gym_fees :: "CategorizedTransaction list" where
  "gym_fees =
     [on_day 0 0 ''Gym'' 90 False Healthcare, on_day 30 0 ''Gym'' 110 False Healthcare]"

definition netflix_charges :: "CategorizedTransaction list" where
  "netflix_charges =
     [on_day 0 0 ''Netflix'' 15 False Entertainment,
      on_day 30 0 ''Netflix'' 15 False Entertainment]"

text \<open>
  Two pairs of small fees, 30 days apart, each fee 10% from the mean of its pair in
  decimal arithmetic: locker fees of 0.27 and 0.33, and parking fees of 0.81 and 0.99.
  The amounts are the doubles that these decimals denote.
\<close>

definition locker_fees :: "CategorizedTransaction list" where
  "locker_fees =
     [on_day 0 0 ''Locker'' (round_double 0.27) False Healthcare,
      on_day 30 0 ''Locker'' (round_double 0.33) False Healthcare]"

definition parking_fees :: "CategorizedTransaction list" where
  "parking_fees =
     [on_day 0 0 ''Parking'' (round_double 0.81) False Transportation,
      on_day 30 0 ''Parking'' (round_double 0.99) False Transportation]"

text \<open>
  The months of the Spending Spike Detector: the calendar month of a transaction, the
  months in which expenses were observed, in the order of first occurrence, the expenses
  of one category in one month, the observed months in which a category has expenses,
  and the totals of a category in these months, each the sum of the doubles accumulated
  from the left.
\<close>

definition calendarMonth :: "CategorizedTransaction \<Rightarrow> int \<times> nat" where
  "calendarMonth t = (getFullYear (date t), getMonth (date t))"

definition observedMonths :: "CategorizedTransaction list \<Rightarrow> (int \<times> nat) list" where
  "observedMonths txs = first_seen (map calendarMonth (expensesOf txs))"

definition monthCell ::
  "CategorizedTransaction list \<Rightarrow> int \<times> nat \<Rightarrow> SpendingCategory \<Rightarrow> CategorizedTransaction list" where
  "monthCell txs ym c = filter (\<lambda>t. calendarMonth t = ym \<and> category t = c) (expensesOf txs)"

definition categoryMonths :: "CategorizedTransaction list \<Rightarrow> SpendingCategory \<Rightarrow> (int \<times> nat) list" where
  "categoryMonths txs c = filter (\<lambda>ym. monthCell txs ym c \<noteq> []) (observedMonths txs)"

definition monthlyTotalsOf :: "CategorizedTransaction list \<Rightarrow> SpendingCategory \<Rightarrow> real list" where
  "monthlyTotalsOf txs c =
     map (\<lambda>ym. Number_sum (map amount (monthCell txs ym c))) (categoryMonths txs c)"

text \<open>The mean of a list of doubles, and the category a spike pattern is about.\<close>

definition meanOf :: "real list \<Rightarrow> real" where
  "meanOf xs = Number_divide (Number_sum xs) (real (length xs))"

text \<open>The spike test as the specification words it, in exact arithmetic: the maximum
  exceeds 1.5 times the mean.\<close>

definition spec_exceeds_mean_by_half :: "real list \<Rightarrow> bool" where
  "spec_exceeds_mean_by_half totals = (1.5 * spec_mean totals < Max (set totals))"

definition spikeCategory :: "DetectedPattern \<Rightarrow> SpendingCategory option" where
  "spikeCategory p = (case pdescription p of SpendingSpikeIn c _ _ \<Rightarrow> Some c | _ \<Rightarrow> None)"

text \<open>The key under which the Spending Spike Detector files a calendar month.\<close>

definition monthKeyOf :: "int \<times> nat \<Rightarrow> string" where
  "monthKeyOf ym = int_to_string (fst ym) @ ''-'' @ nat_to_string (snd ym)"

text \<open>
  A storage rent of 100 on the first of January, February, March and April, and a roof
  repair of 300 on 10 April, all in the category Housing: the monthly totals of Housing
  are 100, 100, 100 and 400.
\<close>

definition storage_and_repair :: "CategorizedTransaction list" where
  "storage_and_repair =
     [on_day 0 0 ''Storage rent'' 100 False Housing,
      on_day 31 1 ''Storage rent'' 100 False Housing,
      on_day 60 2 ''Storage rent'' 100 False Housing,
      on_day 91 3 ''Storage rent'' 100 False Housing,
      on_day 100 3 ''Roof repair'' 300 False Housing]"

definition housing_spike :: DetectedPattern where
  "housing_spike =
     \<lparr> ptype = spending_spike, pdescription = SpendingSpikeIn Housing 400 175,
       transactions = [], severity = medium, impact = 225 \<rparr>"

text \<open>
  Coffee for 7.20 in January, 7.20 in February and 14.40 in March: the monthly totals of
  Food & Dining are 7.20, 7.20 and 14.40, their mean is 9.60 and 1.5 times the mean is
  14.40, the maximum itself. The amounts are the doubles that these decimals denote.
\<close>

definition coffee :: "CategorizedTransaction list" where
  "coffee =
     [on_day 0 0 ''Coffee'' (round_double 7.2) False Food_Dining,
      on_day 31 1 ''Coffee'' (round_double 7.2) False Food_Dining,
      on_day 60 2 ''Coffee'' (round_double 14.4) False Food_Dining]"

text \<open>
  The months of the Trend Detector. A calendar month is numbered by \<open>year * 12 + month\<close>,
  so that a smaller number is an earlier month; \<open>expenseMonths\<close> is the set of months
  with expenses and \<open>monthTotal\<close> the total of the expenses of one month, the sum of the
  doubles accumulated from the left.
\<close>

definition monthIndex :: "CategorizedTransaction \<Rightarrow> int" where
  "monthIndex t = getFullYear (date t) * 12 + int (getMonth (date t))"

definition expenseMonths :: "CategorizedTransaction list \<Rightarrow> int set" where
  "expenseMonths txs = set (map monthIndex (expensesOf txs))"

definition monthTotal :: "CategorizedTransaction list \<Rightarrow> int \<Rightarrow> real" where
  "monthTotal txs i = Number_sum (map amount (filter (\<lambda>t. monthIndex t = i) (expensesOf txs)))"

text \<open>The key under which the Trend Detector files a numbered month, and the decimal
  digits of a number at a fixed width.\<close>

definition trendKeyOfIndex :: "int \<Rightarrow> string" where
  "trendKeyOfIndex i =
     int_to_string (i div 12) @ ''-'' @ padStart2 (nat_to_string (nat (i mod 12) + 1))"

fun fixed_digits :: "nat \<Rightarrow> nat \<Rightarrow> string" where
  "fixed_digits 0 n = []"
| "fixed_digits (Suc k) n = fixed_digits k (n div 10) @ [char_of (48 + n mod 10)]"

text \<open>The months of all expenses are 0 to 11, as \<open>getMonth\<close> returns them; and all
  expenses lie in years of four digits, with months 0 to 11.\<close>

definition valid_months :: "CategorizedTransaction list \<Rightarrow> bool" where
  "valid_months txs = list_all (\<lambda>t. getMonth (date t) < 12) (expensesOf txs)"

definition four_digit_years :: "CategorizedTransaction list \<Rightarrow> bool" where
  "four_digit_years txs =
     (\<forall>t \<in> set (expensesOf txs).
        1000 \<le> getFullYear (date t) \<and> getFullYear (date t) \<le> 9999 \<and> getMonth (date t) < 12)"

text \<open>
  The signal of the Trend Detector from the totals of two months, in the arithmetic of
  the doubles: the change is the rounded difference of the last and the first total, the
  percent change the rounded quotient of the change and the first total, times 100 and
  rounded again; one \<open>trend\<close> pattern when its magnitude exceeds 15, with the direction
  of the change, severity \<open>high\<close> when the magnitude exceeds 30, and the magnitude of the
  change as impact.
\<close>

definition percentChangeBetween :: "real \<Rightarrow> real \<Rightarrow> jsnum" where
  "percentChangeBetween firstTotal lastTotal =
     round_num (js_mul (round_num (js_div (Num (Number_subtract lastTotal firstTotal)) (Num firstTotal)))
                       (Num 100))"

definition trendBetween :: "real \<Rightarrow> real \<Rightarrow> DetectedPattern list" where
  "trendBetween firstTotal lastTotal =
     (let percentChange = percentChangeBetween firstTotal lastTotal
      in if js_gt (Math_abs percentChange) (Num 15)
         then [\<lparr> ptype = trend,
                 pdescription =
                   SpendingOverTime
                     (if 0 < Number_subtract lastTotal firstTotal then increasing else decreasing)
                     (Math_abs percentChange),
                 transactions = [],
                 severity = (if js_gt (Math_abs percentChange) (Num 30) then high else medium),
                 impact = \<bar>Number_subtract lastTotal firstTotal\<bar> \<rparr>]
         else [])"

text \<open>The percent change as the specification words it, in exact arithmetic, for a first
  total other than 0; and the exact total of the expenses of one month.\<close>

definition spec_percentChange :: "real \<Rightarrow> real \<Rightarrow> real" where
  "spec_percentChange firstTotal lastTotal = (lastTotal - firstTotal) / firstTotal * 100"

definition spec_monthTotal :: "CategorizedTransaction list \<Rightarrow> int \<Rightarrow> real" where
  "spec_monthTotal txs i = sum_list (map amount (filter (\<lambda>t. monthIndex t = i) (expensesOf txs)))"

text \<open>
  Bread for 1.00 and milk for 1.20 in January 2024, and bread for 1.87 in February 2024:
  the totals are 2.20 and 1.87, a decrease by 15% in decimal arithmetic. The amounts are
  the doubles that these decimals denote.
\<close>

definition bread_and_milk :: "CategorizedTransaction list" where
  "bread_and_milk =
     [on_day 0 0 ''Bread'' 1 False Food_Dining,
      on_day 1 0 ''Milk'' (round_double 1.2) False Food_Dining,
      on_day 31 1 ''Bread'' (round_double 1.87) False Food_Dining]"

text \<open>Groceries of 100 in December 9999 and of 200 in January 10000; groceries of 1000
  in January 2024 and of 1250 in February 2024; and groceries of 40 and of 80 on two days
  of June 999.\<close>

definition year_10000 :: "CategorizedTransaction list" where
  "year_10000 =
     [\<lparr> date = \<lparr> getTime = 253399622400000, getFullYear = 9999, getMonth = 11 \<rparr>,
        description = ''Groceries'', amount = 100, isIncome = False, category = Food_Dining,
        confidence = 1 \<rparr>,
      \<lparr> date = \<lparr> getTime = 253402300800000, getFullYear = 10000, getMonth = 0 \<rparr>,
        description = ''Groceries'', amount = 200, isIncome = False, category = Food_Dining,
        confidence = 1 \<rparr>]"

definition two_months :: "CategorizedTransaction list" where
  "two_months =
     [on_day 0 0 ''Groceries'' 1000 False Food_Dining,
      on_day 31 1 ''Groceries'' 1250 False Food_Dining]"

definition june_999 :: "CategorizedTransaction list" where
  "june_999 =
     [\<lparr> date = \<lparr> getTime = - 30628713600000, getFullYear = 999, getMonth = 5 \<rparr>,
        description = ''Groceries'', amount = 40, isIncome = False, category = Food_Dining,
        confidence = 1 \<rparr>,
      \<lparr> date = \<lparr> getTime = - 30627504000000, getFullYear = 999, getMonth = 5 \<rparr>,
        description = ''Groceries'', amount = 80, isIncome = False, category = Food_Dining,
        confidence = 1 \<rparr>]"

section \<open>Rounding\<close>

lemma two_powr_int: "(2::real) powr real_of_int k = 2 powi k"
  by (simp add: powr_real_of_int')

lemma binade_eq:
  assumes "2 powi e \<le> \<bar>x\<bar>" and "\<bar>x\<bar> < 2 powi (e + 1)" and "- 1022 \<le> e"
  shows "binade x = e"
proof -
  have pos: "0 < \<bar>x\<bar>"
    using assms(1) zero_less_power_int [of "2::real" e] by linarith
  have "real_of_int e \<le> log 2 \<bar>x\<bar>"
    using assms(1) pos by (simp add: le_log_iff two_powr_int)
  moreover have "log 2 \<bar>x\<bar> < real_of_int (e + 1)"
    using assms(2) pos unfolding log_less_iff [OF _ pos, of 2, simplified] two_powr_int by simp
  ultimately have "\<lfloor>log 2 \<bar>x\<bar>\<rfloor> = e"
    by (simp add: floor_eq_iff)
  then show ?thesis
    using assms(3) by (simp add: binade_def)
qed

lemma binade_bounds:
  assumes "1 \<le> \<bar>x\<bar>"
  shows "0 \<le> binade x" and "2 powi binade x \<le> \<bar>x\<bar>" and "\<bar>x\<bar> < 2 powi (binade x + 1)"
proof -
  define e where "e = \<lfloor>log 2 \<bar>x\<bar>\<rfloor>"
  have pos: "0 < \<bar>x\<bar>"
    using assms by simp
  have "0 \<le> log 2 \<bar>x\<bar>"
    using assms by simp
  then have nonneg: "0 \<le> e"
    by (simp add: e_def)
  then have eq: "binade x = e"
    by (simp add: binade_def e_def)
  have "real_of_int e \<le> log 2 \<bar>x\<bar>" and "log 2 \<bar>x\<bar> < real_of_int (e + 1)"
    by (simp_all add: e_def)
  then have "2 powr real_of_int e \<le> \<bar>x\<bar>" and "\<bar>x\<bar> < 2 powr real_of_int (e + 1)"
    using pos by (simp_all add: le_log_iff log_less_iff del: of_int_add)
  then show "0 \<le> binade x" and "2 powi binade x \<le> \<bar>x\<bar>" and "\<bar>x\<bar> < 2 powi (binade x + 1)"
    using nonneg unfolding eq two_powr_int by simp_all
qed

lemma round_ties_even_int [simp]: "round_ties_even (of_int k) = k"
  by (simp add: round_ties_even_def)

lemma round_ties_even_bounds: "\<lfloor>y\<rfloor> \<le> round_ties_even y" "round_ties_even y \<le> \<lfloor>y\<rfloor> + 1"
  by (simp_all add: round_ties_even_def Let_def)

lemma round_double_0 [simp]: "round_double 0 = 0"
  by (simp add: round_double_def)

lemma round_double_eval:
  assumes "2 powi e \<le> \<bar>x\<bar>" and "\<bar>x\<bar> < 2 powi (e + 1)" and "- 1022 \<le> e"
  shows "round_double x = of_int (round_ties_even (x / 2 powi (e - 52))) * 2 powi (e - 52)"
proof -
  have "0 < \<bar>x\<bar>"
    using assms(1) zero_less_power_int [of "2::real" e] by linarith
  then have "x \<noteq> 0"
    by simp
  then show ?thesis
    by (simp add: round_double_def binade_eq [OF assms])
qed

lemma round_double_of_int:
  assumes "\<bar>n\<bar> < 2 ^ 53"
  shows "round_double (of_int n) = of_int n"
proof (cases "n = 0")
  case True
  then show ?thesis by simp
next
  case False
  define x where "x = real_of_int n"
  define e where "e = binade x"
  have one: "1 \<le> \<bar>x\<bar>"
    using False by (simp add: x_def flip: of_int_abs)
  have e: "0 \<le> e" "2 powi e \<le> \<bar>x\<bar>"
    unfolding e_def using binade_bounds [OF one] by simp_all
  have "\<bar>x\<bar> < 2 powi 53"
    using assms by (simp add: x_def flip: of_int_abs)
  then have "(2::real) powi e < 2 powi 53"
    using e(2) by simp
  then have "e < 53"
    using power_int_le_imp_less_exp [of "2::real" e 53] by simp
  then obtain m where m: "52 - e = int m"
    using nonneg_int_cases [of "52 - e"] by auto
  have "x / 2 powi (e - 52) = x * 2 powi (52 - e)"
    by (simp add: power_int_diff)
  also have "\<dots> = of_int (n * 2 ^ m)"
    by (simp add: m x_def)
  finally have quot: "x / 2 powi (e - 52) = of_int (n * 2 ^ m)" .
  have rounded: "round_ties_even (x / 2 powi (e - 52)) = n * 2 ^ m"
    unfolding quot by (rule round_ties_even_int)
  have scaled: "real_of_int (n * 2 ^ m) * 2 powi (e - 52) = x"
  proof -
    have "e - 52 = - int m" using m by simp
    then show ?thesis by (simp add: x_def power_int_minus)
  qed
  have "x \<noteq> 0"
    using one by auto
  then have "round_double x = of_int (round_ties_even (x / 2 powi (e - 52))) * 2 powi (e - 52)"
    by (simp add: round_double_def e_def)
  then show ?thesis
    unfolding rounded scaled by (simp only: x_def)
qed

lemma round_double_numeral [simp]:
  "(numeral k :: int) < 2 ^ 53 \<Longrightarrow> round_double (numeral k) = numeral k"
  "(numeral k :: int) < 2 ^ 53 \<Longrightarrow> round_double (- numeral k) = - numeral k"
  "round_double 1 = 1"
  using round_double_of_int [of "numeral k"] round_double_of_int [of "- numeral k"]
    round_double_of_int [of 1]
  by simp_all

lemma round_double_pos_iff:
  assumes "1 \<le> \<bar>x\<bar>"
  shows "0 < round_double x \<longleftrightarrow> 0 < x"
proof -
  define e where "e = binade x"
  define y where "y = x / 2 powi (e - 52)"
  have e: "2 powi e \<le> \<bar>x\<bar>"
    unfolding e_def using binade_bounds [OF assms] by simp
  have "\<bar>y\<bar> = \<bar>x\<bar> * 2 powi (52 - e)"
    by (simp add: y_def power_int_diff abs_mult)
  moreover have "2 powi e * 2 powi (52 - e) \<le> \<bar>x\<bar> * 2 powi (52 - e)"
    using e by (intro mult_right_mono) simp_all
  moreover have "(2::real) powi e * 2 powi (52 - e) = 2 powi 52"
    by (simp flip: power_int_add)
  ultimately have big: "1 \<le> \<bar>y\<bar>"
    by simp
  have unit: "\<not> (2::real) powi (e - 52) < 0" "(0::real) < 2 powi (e - 52)"
    by (simp_all add: not_less)
  have sign: "0 < y \<longleftrightarrow> 0 < x"
    by (simp add: y_def zero_less_divide_iff unit)
  have "0 < round_ties_even y \<longleftrightarrow> 0 < y"
  proof (cases "0 < y")
    case True
    then have "1 \<le> \<lfloor>y\<rfloor>" using big by simp
    then show ?thesis using True round_ties_even_bounds(1) [of y] by linarith
  next
    case False
    then have "y \<le> - 1" using big by simp
    then have "\<lfloor>y\<rfloor> \<le> - 1" by (simp add: floor_le_iff)
    then show ?thesis using False round_ties_even_bounds(2) [of y] by linarith
  qed
  moreover have "x \<noteq> 0" using assms by auto
  ultimately show ?thesis
    using sign
    by (simp add: round_double_def e_def [symmetric] y_def [symmetric] zero_less_mult_iff unit)
qed

text \<open>
  The rules for evaluating \<open>round_double\<close> at a given fraction: for each form of a
  fraction of numerals, one instance of \<open>round_double_eval\<close> for each binade from
  \<open>2^(-8)\<close> to \<open>2^12\<close>, which cover the amounts of the examples. The whole numbers below
  \<open>2^53\<close> are doubles.
\<close>

lemma round_ties_even_unfold:
  "round_ties_even x =
     (if x - of_int \<lfloor>x\<rfloor> < 1 / 2 then \<lfloor>x\<rfloor>
      else if 1 / 2 < x - of_int \<lfloor>x\<rfloor> then \<lfloor>x\<rfloor> + 1
      else if even \<lfloor>x\<rfloor> then \<lfloor>x\<rfloor> else \<lfloor>x\<rfloor> + 1)"
  by (simp add: round_ties_even_def Let_def)

lemmas round_double_fraction =
  round_double_eval [of _ "numeral a / numeral b" for a b]
  round_double_eval [of _ "1 / numeral b" for b]
  round_double_eval [of _ "- (numeral a / numeral b)" for a b]
  round_double_eval [of _ "- (1 / numeral b)" for b]

lemmas round_double_evals =
  round_double_fraction [where e = "- 8"] round_double_fraction [where e = "- 7"]
  round_double_fraction [where e = "- 6"] round_double_fraction [where e = "- 5"]
  round_double_fraction [where e = "- 4"] round_double_fraction [where e = "- 3"]
  round_double_fraction [where e = "- 2"] round_double_fraction [where e = "- 1"]
  round_double_fraction [where e = 0] round_double_fraction [where e = 1]
  round_double_fraction [where e = 2] round_double_fraction [where e = 3]
  round_double_fraction [where e = 4] round_double_fraction [where e = 5]
  round_double_fraction [where e = 6] round_double_fraction [where e = 7]
  round_double_fraction [where e = 8] round_double_fraction [where e = 9]
  round_double_fraction [where e = 10] round_double_fraction [where e = 11]
  round_double_fraction [where e = 12]
  round_ties_even_unfold

text \<open>
  Some doubles: the double nearest to one tenth is \<open>3602879701896397 / 2^55\<close>, a little
  above one tenth, and the one nearest to 7.2 is \<open>8106479329266893 / 2^50\<close>; halfway
  between two doubles the one with the even significand is taken, down from
  \<open>1 + 2^(-53)\<close> and up from \<open>1 + 3 * 2^(-53)\<close>; and \<open>0.1 + 0.2\<close> is not \<open>0.3\<close>.
\<close>

lemma round_double_examples:
  "round_double 0.1 = 3602879701896397 / 36028797018963968"
  "round_double 7.2 = 8106479329266893 / 1125899906842624"
  "round_double (1 + 1 / 2 ^ 53) = 1"
  "round_double (1 + 3 / 2 ^ 53) = 1 + 1 / 2 ^ 51"
  "Number_add (round_double 0.1) (round_double 0.2) = round_double 0.30000000000000004"
  "round_double 0.30000000000000004 \<noteq> round_double 0.3"
  by (simp_all add: Number_add_def round_double_evals)

lemma Number_sum_foldl: "foldl (\<lambda>s t. Number_add s (f t)) 0 xs = Number_sum (map f xs)"
  by (simp add: Number_sum_def foldl_map)

text \<open>The sign of the rounded difference of two whole numbers is the sign of their
  difference: the comparator \<open>(a, b) => a - b\<close> orders the times of the dates.\<close>

lemma Number_subtract_pos_iff:
  "0 < Number_subtract (real_of_int i) (real_of_int j) \<longleftrightarrow> j < i"
proof (cases "i = j")
  case True
  then show ?thesis by (simp add: Number_subtract_def)
next
  case False
  then have "1 \<le> \<bar>real_of_int (i - j)\<bar>"
    by (simp flip: of_int_abs)
  then show ?thesis
    using round_double_pos_iff [of "real_of_int (i - j)"] by (simp add: Number_subtract_def)
qed

section \<open>Folds, maps and sorting\<close>

lemma foldl_add_sum_list: "foldl (\<lambda>s t. s + f t) (a::real) xs = a + sum_list (map f xs)"
  by (induction xs arbitrary: a) auto

lemma foldl_skip:
  "foldl (\<lambda>m t. if P t then m else f m t) a xs = foldl f a (filter (\<lambda>t. \<not> P t) xs)"
  by (induction xs arbitrary: a) auto

lemma first_seen_Nil [simp]: "first_seen [] = []"
  by (simp add: first_seen_def)

lemma first_seen_snoc:
  "first_seen (xs @ [x]) = (if x \<in> set xs then first_seen xs else first_seen xs @ [x])"
  by (simp add: first_seen_def)

lemma set_first_seen [simp]: "set (first_seen xs) = set xs"
  by (simp add: first_seen_def)

lemma distinct_first_seen [simp]: "distinct (first_seen xs)"
  by (simp add: first_seen_def)

lemma update_map_present:
  "distinct ks \<Longrightarrow> k \<in> set ks \<Longrightarrow>
   AList.update k v (map (\<lambda>k'. (k', F k')) ks) = map (\<lambda>k'. (k', if k' = k then v else F k')) ks"
  by (induction ks) auto

lemma update_map_absent:
  "k \<notin> set ks \<Longrightarrow>
   AList.update k v (map (\<lambda>k'. (k', F k')) ks) = map (\<lambda>k'. (k', F k')) ks @ [(k, v)]"
  by (induction ks) auto

lemma map_of_map_keys:
  "map_of (map (\<lambda>k'. (k', F k')) ks) k = (if k \<in> set ks then Some (F k) else None)"
  by (induction ks) auto

text \<open>A map filled by the get-or-default idiom holds, for each key in the order of first
  occurrence, the fold of the update over the elements with that key.\<close>

lemma Map_upsert_fold:
  "foldl (\<lambda>m t. Map_upsert m (key t) d (\<lambda>v. h v t)) [] xs =
   map (\<lambda>k. (k, foldl h d (filter (\<lambda>t. key t = k) xs))) (first_seen (map key xs))"
proof (induction xs rule: rev_induct)
  case Nil
  then show ?case by simp
next
  case (snoc t xs)
  let ?ks = "first_seen (map key xs)"
  show ?case
  proof (cases "key t \<in> set (map key xs)")
    case True
    then have "key t \<in> set ?ks" by simp
    then show ?thesis
      using snoc True
      by (simp add: Map_upsert_def map_of_map_keys update_map_present first_seen_snoc)
  next
    case False
    then have notin: "key t \<notin> set ?ks" by simp
    have empty: "filter (\<lambda>u. key u = key t) xs = []"
      using False by (induction xs) auto
    have "\<And>k. k \<in> set ?ks \<Longrightarrow> k \<noteq> key t" using notin by blast
    then show ?thesis
      using snoc False notin empty
      by (auto simp add: Map_upsert_def map_of_map_keys update_map_absent first_seen_snoc
            intro: rev_image_eqI)
  qed
qed

lemma foldl_snoc: "foldl (\<lambda>v t. v @ [t]) a xs = a @ xs"
  by (induction xs arbitrary: a) auto

lemma foldl_snoc_map: "foldl (\<lambda>v p. v @ [g p]) a ys = a @ map g ys"
  by (induction ys arbitrary: a) auto

lemma first_seen_map_inj:
  "(\<forall>a \<in> set xs. \<forall>b \<in> set xs. f (g a) = f (g b) \<longrightarrow> g a = g b) \<Longrightarrow>
   first_seen (map (\<lambda>x. f (g x)) xs) = map f (first_seen (map g xs))"
proof (induction xs rule: rev_induct)
  case Nil
  then show ?case by simp
next
  case (snoc x xs)
  have "f (g x) \<in> (\<lambda>x. f (g x)) ` set xs \<longleftrightarrow> g x \<in> g ` set xs"
    using snoc.prems by auto
  moreover have "first_seen (map (\<lambda>x. f (g x)) xs) = map f (first_seen (map g xs))"
    using snoc by simp
  ultimately show ?case
    by (simp add: first_seen_snoc)
qed

lemma filter_key_map:
  "distinct cs \<Longrightarrow>
   filter (\<lambda>p. fst p = c) (map (\<lambda>c'. (c', F c')) cs) = (if c \<in> set cs then [(c, F c)] else [])"
  by (induction cs) auto

lemma concat_map_if: "concat (map (\<lambda>k. if P k then [f k] else []) ks) = map f (filter P ks)"
  by (induction ks) auto

lemma insert_sorted_desc:
  "insert_sorted (\<lambda>a b. g b - g a) x ys = insort_key (\<lambda>a. - g a) x ys"
  by (induction ys) auto

lemma Array_sort_desc: "Array_sort (\<lambda>a b. g b - g a) xs = sort_key (\<lambda>a. - g a) xs"
  by (induction xs) (simp_all add: Array_sort_def sort_key_def insert_sorted_desc)

lemma insert_sorted_asc: "insert_sorted (\<lambda>a b. g a - g b) x ys = insort_key g x ys"
  by (induction ys) auto

lemma Array_sort_asc: "Array_sort (\<lambda>a b. g a - g b) xs = sort_key g xs"
  by (induction xs) (simp_all add: Array_sort_def sort_key_def insert_sorted_asc)

lemma insert_sorted_map:
  fixes x :: "'a::linorder"
  shows "(\<forall>b \<in> set ys. (0 < cmp (f x) (f b)) = (b < x)) \<Longrightarrow>
         insert_sorted cmp (f x) (map f ys) = map f (insort x ys)"
  by (induction ys) auto

lemma Array_sort_map:
  fixes xs :: "'a::linorder list"
  shows "(\<forall>a \<in> set xs. \<forall>b \<in> set xs. (0 < cmp (f a) (f b)) = (b < a)) \<Longrightarrow>
         Array_sort cmp (map f xs) = map f (sort xs)"
proof (induction xs)
  case Nil
  then show ?case by (simp add: Array_sort_def)
next
  case (Cons x xs)
  then have "Array_sort cmp (map f xs) = map f (sort xs)"
    by simp
  then have "Array_sort cmp (map f (x # xs)) = insert_sorted cmp (f x) (map f (sort xs))"
    by (simp add: Array_sort_def)
  also have "\<dots> = map f (insort x (sort xs))"
    using Cons.prems by (intro insert_sorted_map) simp
  finally show ?case by simp
qed

lemma sorted_hd_Min:
  fixes xs :: "'a::linorder list"
  shows "sorted xs \<Longrightarrow> xs \<noteq> [] \<Longrightarrow> hd xs = Min (set xs)"
  by (cases xs) (auto simp: Min_insert2)

lemma sorted_last_Max:
  fixes xs :: "'a::linorder list"
  shows "sorted xs \<Longrightarrow> xs \<noteq> [] \<Longrightarrow> last xs = Max (set xs)"
proof (induction xs)
  case Nil
  then show ?case by simp
next
  case (Cons x xs)
  show ?case
  proof (cases "xs = []")
    case True
    then show ?thesis by simp
  next
    case False
    then have "last xs = Max (set xs)" and "Max (set xs) \<in> set xs"
      using Cons by auto
    moreover have "x \<le> Max (set xs)"
      using Cons.prems(1) \<open>Max (set xs) \<in> set xs\<close> by auto
    ultimately show ?thesis
      using False by (simp add: max_def)
  qed
qed

section \<open>Printed numbers and month keys\<close>

declare nat_to_string.simps [simp del]

lemma nat_to_string_small: "n < 10 \<Longrightarrow> nat_to_string n = [char_of (48 + n)]"
  by (subst nat_to_string.simps) simp

lemma nat_to_string_large:
  "\<not> n < 10 \<Longrightarrow> nat_to_string n = nat_to_string (n div 10) @ [char_of (48 + n mod 10)]"
  by (subst nat_to_string.simps) simp

lemma nat_to_string_nonempty [simp]: "nat_to_string n \<noteq> []" "[] \<noteq> nat_to_string n"
  by (cases "n < 10"; simp add: nat_to_string_small nat_to_string_large)+

lemma digit_char_code: "k < 10 \<Longrightarrow> (of_char (char_of (48 + k) :: char) :: nat) = 48 + k"
  by simp

lemma digit_char_inj:
  assumes "a < 10" and "b < 10" and "(char_of (48 + a) :: char) = char_of (48 + (b::nat))"
  shows "a = b"
proof -
  have "(of_char (char_of (48 + a) :: char) :: nat) = of_char (char_of (48 + b) :: char)"
    using assms(3) by (rule arg_cong)
  then show ?thesis using assms(1,2) by (simp only: digit_char_code)
qed

lemma digit_char_no_dash: "k < 10 \<Longrightarrow> (char_of (48 + (k::nat)) :: char) \<noteq> CHR ''-''"
proof
  assume "k < 10" and "(char_of (48 + k) :: char) = CHR ''-''"
  then have "(of_char (char_of (48 + k) :: char) :: nat) = of_char CHR ''-''" by (simp only:)
  then show False using \<open>k < 10\<close> by (simp only: digit_char_code) simp
qed

lemma nat_to_string_no_dash: "CHR ''-'' \<notin> set (nat_to_string n)"
proof (induction n rule: nat_to_string.induct)
  case (1 n)
  show ?case
  proof (cases "n < 10")
    case True
    then show ?thesis using digit_char_no_dash [of n] by (auto simp: nat_to_string_small)
  next
    case False
    then show ?thesis
      using 1 digit_char_no_dash [of "n mod 10"] by (auto simp: nat_to_string_large)
  qed
qed

lemma nat_to_string_inj: "nat_to_string n = nat_to_string m \<Longrightarrow> n = m"
proof (induction n arbitrary: m rule: nat_to_string.induct)
  case (1 n)
  show ?case
  proof (cases "n < 10")
    case small_n: True
    show ?thesis
    proof (cases "m < 10")
      case True
      then show ?thesis
        using 1(2) small_n digit_char_inj [of n m] by (simp add: nat_to_string_small)
    next
      case False
      then show ?thesis
        using 1(2) small_n by (simp add: nat_to_string_small nat_to_string_large)
    qed
  next
    case large_n: False
    show ?thesis
    proof (cases "m < 10")
      case True
      then show ?thesis
        using 1(2) large_n by (simp add: nat_to_string_small nat_to_string_large)
    next
      case False
      then have "nat_to_string (n div 10) = nat_to_string (m div 10)"
        and "(char_of (48 + n mod 10) :: char) = char_of (48 + m mod 10)"
        using 1(2) large_n by (simp_all add: nat_to_string_large)
      then have "n div 10 = m div 10" and "n mod 10 = m mod 10"
        using 1(1) [OF large_n] digit_char_inj [of "n mod 10" "m mod 10"] by simp_all
      then show ?thesis
        by (metis div_mult_mod_eq)
    qed
  qed
qed

lemma int_to_string_inj: "int_to_string i = int_to_string j \<Longrightarrow> i = j"
proof -
  assume eq: "int_to_string i = int_to_string j"
  have no_dash: "nat_to_string k \<noteq> CHR ''-'' # s" for k s
    using nat_to_string_no_dash [of k] by (metis list.set_intros(1))
  show "i = j"
  proof (cases "i < 0"; cases "j < 0")
    assume "i < 0" "j < 0"
    then have "nat (- i) = nat (- j)"
      using eq nat_to_string_inj by (simp add: int_to_string_def)
    then show ?thesis using \<open>i < 0\<close> \<open>j < 0\<close> by simp
  next
    assume "i < 0" "\<not> j < 0"
    then show ?thesis using eq no_dash by (simp add: int_to_string_def) metis
  next
    assume "\<not> i < 0" "j < 0"
    then show ?thesis using eq no_dash by (simp add: int_to_string_def)
  next
    assume "\<not> i < 0" "\<not> j < 0"
    then have "nat i = nat j"
      using eq nat_to_string_inj by (simp add: int_to_string_def)
    then show ?thesis using \<open>\<not> i < 0\<close> \<open>\<not> j < 0\<close> by simp
  qed
qed

lemma split_at_last_dash:
  assumes "a @ CHR ''-'' # b = a' @ CHR ''-'' # b'"
    and "CHR ''-'' \<notin> set b" and "CHR ''-'' \<notin> set b'"
  shows "a = a' \<and> b = b'"
  using assms
  by (auto simp: append_eq_append_conv2 append_eq_Cons_conv Cons_eq_append_conv)

lemma spikeMonthKey_eq_iff:
  "spikeMonthKey d = spikeMonthKey d' \<longleftrightarrow>
   getFullYear d = getFullYear d' \<and> getMonth d = getMonth d'"
proof
  assume "spikeMonthKey d = spikeMonthKey d'"
  then have "int_to_string (getFullYear d) = int_to_string (getFullYear d')
             \<and> nat_to_string (getMonth d) = nat_to_string (getMonth d')"
    using split_at_last_dash [of "int_to_string (getFullYear d)" "nat_to_string (getMonth d)"
        "int_to_string (getFullYear d')" "nat_to_string (getMonth d')"]
      nat_to_string_no_dash
    by (simp add: spikeMonthKey_def)
  then show "getFullYear d = getFullYear d' \<and> getMonth d = getMonth d'"
    using int_to_string_inj nat_to_string_inj by blast
next
  assume "getFullYear d = getFullYear d' \<and> getMonth d = getMonth d'"
  then show "spikeMonthKey d = spikeMonthKey d'"
    by (simp add: spikeMonthKey_def)
qed

text \<open>The digit characters, for evaluating keys.\<close>

lemma digit_chars:
  "char_of (48::nat) = CHR ''0''" "char_of (49::nat) = CHR ''1''" "char_of (50::nat) = CHR ''2''"
  "char_of (51::nat) = CHR ''3''" "char_of (52::nat) = CHR ''4''" "char_of (53::nat) = CHR ''5''"
  "char_of (54::nat) = CHR ''6''" "char_of (55::nat) = CHR ''7''" "char_of (56::nat) = CHR ''8''"
  "char_of (57::nat) = CHR ''9''"
  by (simp_all add: char_of_def bit_0)

text \<open>The defining equations for evaluating the detectors on a given list.\<close>

lemmas number_eval =
  Number_add_def Number_subtract_def Number_multiply_def Number_divide_def Number_sum_def
  round_num_def round_double_evals

lemmas recurring_eval =
  findRecurringCharges_def descriptionGroups_def recurringGroup_def Map_upsert_def
  Array_sort_def on_day_def upt_rec number_eval

lemmas spikes_eval =
  findSpendingSpikes_def categoryMonthlyTotals_def monthlyByCategory_def spikeOfCategory_def
  Map_upsert_def on_day_def spikeMonthKey_def int_to_string_def
  nat_to_string.simps digit_chars number_eval

lemmas trends_eval =
  findTrends_def monthlyTotals_def Map_upsert_def Array_sort_def on_day_def trendMonthKey_def
  int_to_string_def padStart2_def nat_to_string.simps digit_chars number_eval

lemmas metrics_eval =
  calculateMetrics_def calculateCategoryBreakdown_def Map_upsert_def Array_sort_def
  Math_min_def Math_max_def TimeClip_def on_day_def

section \<open>The Metrics Aggregator on the empty sequence\<close>

text \<open>
  C1 (as stated: an empty sequence raises EmptyDatasetError). \<open>calculateMetrics\<close> has
  no \<open>throw\<close>: on the empty sequence the minimum and the maximum of no dates give an
  invalid date, the day difference is \<open>NaN\<close>, \<open>NaN || 1\<close> is \<open>1\<close>, and the
  function returns the metrics with every total and average 0 and an empty breakdown.
\<close>

theorem calculateMetrics_empty_returns: "calculateMetrics [] = zero_metrics"
  by (simp add: metrics_eval zero_metrics_def)

text \<open>
  C1 (amended): for every sequence, empty or not, \<open>calculateMetrics\<close> returns one
  FinancialMetrics value whose totals are the sums over the income and the expense
  transactions and whose net cash flow is their difference; for the empty sequence this
  value is the all-zero metrics with an empty breakdown, and no error is raised.
\<close>

theorem calculateMetrics_totals:
  "totalIncome (calculateMetrics txs) = sum_list (map amount (filter (\<lambda>t. isIncome t) txs))
   \<and> totalSpending (calculateMetrics txs) = sum_list (map amount (filter (\<lambda>t. \<not> isIncome t) txs))
   \<and> netCashFlow (calculateMetrics txs)
       = totalIncome (calculateMetrics txs) - totalSpending (calculateMetrics txs)
   \<and> (txs = [] \<longrightarrow> calculateMetrics txs = zero_metrics)"
proof -
  have "calculateMetrics [] = zero_metrics"
    by (simp add: metrics_eval zero_metrics_def)
  then show ?thesis
    by (auto simp add: calculateMetrics_def Let_def foldl_add_sum_list)
qed

theorem calculateMetrics_totals_witness:
  "totalIncome (calculateMetrics []) = 0 \<and> totalSpending (calculateMetrics []) = 0
   \<and> netCashFlow (calculateMetrics []) = 0 \<and> calculateMetrics [] = zero_metrics"
  using calculateMetrics_totals [of "[]"] by (simp add: zero_metrics_def)

section \<open>Percentages\<close>

text \<open>
  C5: with expenses whose amounts sum to 0, the percentage of a category is
  \<open>0 / 0 * 100\<close>, which is \<open>NaN\<close> and not 0: the division has no guard.
\<close>

theorem percentage_of_zero_spending_is_NaN:
  "totalSpending (calculateMetrics free_sample) = 0
   \<and> map percentage (categoryBreakdown (calculateMetrics free_sample)) = [NaN]"
  by (simp add: metrics_eval free_sample_def)

section \<open>Recurring income\<close>

text \<open>
  C10: the Recurring Charge Detector does not look at \<open>isIncome\<close>. For the two salary
  deposits, 30 days apart, all of them income, \<open>detectPatterns\<close> returns one
  \<open>recurring_charge\<close> pattern that attaches the two deposits, and their normalized
  description \<open>salary\<close> is in the set that the Anomaly Detector excludes.
\<close>

theorem recurring_income_detected:
  "list_all isIncome salary_deposits
   \<and> detectPatterns salary_deposits =
       [\<lparr> ptype = recurring_charge,
          pdescription = RecurringMonthlyCharge ''salary'' 3000,
          transactions = salary_deposits,
          severity = medium,
          impact = 36000 \<rparr>]
   \<and> map (\<lambda>t. normalizeDescription (description t)) salary_deposits = [''salary'', ''salary'']
   \<and> ''salary'' \<in> recurringDescriptions (findRecurringCharges salary_deposits)"
proof -
  let ?p = "\<lparr> ptype = recurring_charge,
              pdescription = RecurringMonthlyCharge ''salary'' 3000,
              transactions = salary_deposits,
              severity = medium,
              impact = 36000 \<rparr>"
  have income: "list_all isIncome salary_deposits"
    by (simp add: salary_deposits_def on_day_def)
  have name: "normalizeDescription ''Salary'' = ''salary''"
    by code_simp
  have recurring: "findRecurringCharges salary_deposits = [?p]"
    by (simp add: recurring_eval salary_deposits_def name)
  have anomalies: "findAnomalies salary_deposits [?p] = []"
    by (simp add: findAnomalies_def salary_deposits_def on_day_def)
  have spikes: "findSpendingSpikes salary_deposits = []"
    by (simp add: spikes_eval salary_deposits_def)
  have trends: "findTrends salary_deposits = []"
    by (simp add: trends_eval salary_deposits_def)
  have normalized:
    "map (\<lambda>t. normalizeDescription (description t)) salary_deposits = [''salary'', ''salary'']"
    by (simp add: salary_deposits_def on_day_def name)
  have "detectPatterns salary_deposits = [?p]"
    by (simp add: detectPatterns_def Let_def recurring anomalies spikes trends Array_sort_def)
  moreover have "''salary'' \<in> recurringDescriptions (findRecurringCharges salary_deposits)"
    using normalized by (simp add: recurring recurringDescriptions_def)
  ultimately show ?thesis
    using income normalized by simp
qed

section \<open>The orchestrator\<close>

text \<open>
  C2: \<open>detectPatterns\<close> returns the outputs of the four detectors, recurring, then
  anomaly (given the recurring detector's output), then spike, then trend, concatenated
  and sorted by impact, highest first: the result is a permutation of the concatenation,
  it is sorted descending by impact, and the sort is stable, that is, the patterns of any
  one impact stand in the order in which they were emitted.
\<close>

theorem detectPatterns_sorted_stable:
  "mset (detectPatterns txs) =
     mset (findRecurringCharges txs @ findAnomalies txs (findRecurringCharges txs)
           @ findSpendingSpikes txs @ findTrends txs)
   \<and> sorted_wrt (\<lambda>a b. impact b \<le> impact a) (detectPatterns txs)
   \<and> (\<forall>v. filter (\<lambda>p. impact p = v) (detectPatterns txs) =
            filter (\<lambda>p. impact p = v)
              (findRecurringCharges txs @ findAnomalies txs (findRecurringCharges txs)
               @ findSpendingSpikes txs @ findTrends txs))"
proof -
  let ?all = "findRecurringCharges txs @ findAnomalies txs (findRecurringCharges txs)
              @ findSpendingSpikes txs @ findTrends txs"
  have eq: "detectPatterns txs = sort_key (\<lambda>p. - impact p) ?all"
    by (simp add: detectPatterns_def Let_def Array_sort_desc)
  have "sorted (map (\<lambda>p. - impact p) (detectPatterns txs))"
    unfolding eq by (rule sorted_sort_key)
  then have sorted: "sorted_wrt (\<lambda>a b. impact b \<le> impact a) (detectPatterns txs)"
    by (simp add: sorted_map)
  have stable: "filter (\<lambda>p. impact p = v) (detectPatterns txs) = filter (\<lambda>p. impact p = v) ?all"
    for v
    using sort_key_stable [of "\<lambda>p. - impact p" "- v" ?all] by (simp add: eq)
  show ?thesis
    using sorted stable by (simp add: eq)
qed

section \<open>Recurring charges are not anomalies\<close>

lemma recurringGroup_ptype: "p \<in> set (recurringGroup desc txns) \<Longrightarrow> ptype p = recurring_charge"
  by (auto simp: recurringGroup_def Let_def split: if_splits)

lemma findRecurringCharges_ptype:
  "p \<in> set (findRecurringCharges txs) \<Longrightarrow> ptype p = recurring_charge"
  by (auto simp: findRecurringCharges_def dest: recurringGroup_ptype)

lemma findSpendingSpikes_ptype:
  "p \<in> set (findSpendingSpikes txs) \<Longrightarrow> ptype p = spending_spike"
  by (auto simp: findSpendingSpikes_def spikeOfCategory_def Let_def split: if_splits)

lemma findTrends_ptype: "p \<in> set (findTrends txs) \<Longrightarrow> ptype p = trend"
  by (auto simp: findTrends_def Let_def split: if_splits)

lemma findAnomalies_excluded:
  "p \<in> set (findAnomalies txs rs) \<Longrightarrow> t \<in> set (transactions p) \<Longrightarrow>
   normalizeDescription (description t) \<notin> recurringDescriptions rs"
  by (auto simp: findAnomalies_def Let_def split: if_splits)

lemma set_detectPatterns:
  "set (detectPatterns txs) =
     set (findRecurringCharges txs) \<union> set (findAnomalies txs (findRecurringCharges txs))
     \<union> set (findSpendingSpikes txs) \<union> set (findTrends txs)"
  by (auto simp add: detectPatterns_def Let_def Array_sort_desc)

lemma recurringDescriptions_member:
  "q \<in> set rs \<Longrightarrow> t \<in> set (transactions q) \<Longrightarrow>
   normalizeDescription (description t) \<in> recurringDescriptions rs"
  by (auto simp: recurringDescriptions_def)

text \<open>
  C3: a transaction attached to an \<open>anomaly\<close> pattern of \<open>detectPatterns\<close> has a
  normalized description that no transaction of a recurring pattern of the same pass has;
  so no transaction of a group accepted by the Recurring Charge Detector is emitted as
  an anomaly, whatever its amount.
\<close>

theorem recurring_never_anomaly:
  assumes "p \<in> set (detectPatterns txs)" and "ptype p = anomaly" and "t \<in> set (transactions p)"
  shows "normalizeDescription (description t) \<notin> recurringDescriptions (findRecurringCharges txs)
         \<and> (\<forall>q \<in> set (findRecurringCharges txs). t \<notin> set (transactions q))"
proof -
  have "p \<in> set (findAnomalies txs (findRecurringCharges txs))"
    using assms(1,2) findRecurringCharges_ptype [of p txs] findSpendingSpikes_ptype [of p txs]
      findTrends_ptype [of p txs]
    by (auto simp: set_detectPatterns)
  then have "normalizeDescription (description t) \<notin> recurringDescriptions (findRecurringCharges txs)"
    using assms(3) by (rule findAnomalies_excluded)
  then show ?thesis
    using recurringDescriptions_member by blast
qed

theorem recurring_never_anomaly_witness:
  "laptop_anomaly \<in> set (detectPatterns rent_and_laptop)
   \<and> ptype laptop_anomaly = anomaly
   \<and> laptop \<in> set (transactions laptop_anomaly)
   \<and> map transactions (findRecurringCharges rent_and_laptop) = [rent_charges]
   \<and> map amount rent_charges = [1715, 1715]
   \<and> map impact (findAnomalies rent_and_laptop []) = [1715, 1715, 1715]
   \<and> normalizeDescription (description laptop)
        \<notin> recurringDescriptions (findRecurringCharges rent_and_laptop)
   \<and> list_all (\<lambda>q. laptop \<notin> set (transactions q)) (findRecurringCharges rent_and_laptop)"
proof -
  let ?r = "\<lparr> ptype = recurring_charge, pdescription = RecurringMonthlyCharge ''rent'' 1715,
              transactions = rent_charges, severity = medium, impact = 20580 \<rparr>"
  have names: "normalizeDescription ''Rent'' = ''rent''"
    "normalizeDescription ''Lunch'' = ''lunch''"
    "normalizeDescription ''Laptop'' = ''laptop''"
    by code_simp+
  have recurring: "findRecurringCharges rent_and_laptop = [?r]"
    by (simp add: recurring_eval rent_and_laptop_def rent_charges_def laptop_def names eval_nat_numeral)
  have root: "sqrt 160000 = 400"
    by (rule real_sqrt_unique) simp_all
  have anomalies: "findAnomalies rent_and_laptop [?r] = [laptop_anomaly]"
    by (simp add: findAnomalies_def rent_and_laptop_def rent_charges_def on_day_def laptop_def
        laptop_anomaly_def recurringDescriptions_def reduce_add_def names root eval_nat_numeral)
  have unfiltered: "map impact (findAnomalies rent_and_laptop []) = [1715, 1715, 1715]"
    by (simp add: findAnomalies_def rent_and_laptop_def on_day_def laptop_def
        recurringDescriptions_def reduce_add_def names root eval_nat_numeral)
  have member: "laptop_anomaly \<in> set (detectPatterns rent_and_laptop)"
    by (simp add: set_detectPatterns recurring anomalies)
  have kind: "ptype laptop_anomaly = anomaly"
    and attached: "laptop \<in> set (transactions laptop_anomaly)"
    by (simp_all add: laptop_anomaly_def)
  show ?thesis
    using recurring_never_anomaly [OF member kind attached] member kind attached unfiltered
    by (simp add: recurring list_all_iff) (simp add: rent_charges_def on_day_def)
qed

section \<open>Time-normalized averages\<close>

lemma foldl_min_Num:
  "foldl js_min2 (Num (of_int a)) (map (\<lambda>i. Num (of_int i)) ys) = Num (of_int (foldl min a ys))"
  by (induction ys arbitrary: a) (simp_all flip: of_int_min)

lemma foldl_max_Num:
  "foldl js_max2 (Num (of_int a)) (map (\<lambda>i. Num (of_int i)) ys) = Num (of_int (foldl max a ys))"
  by (induction ys arbitrary: a) (simp_all flip: of_int_max)

lemma foldl_min_fold: "foldl min (a::int) ys = fold min ys a"
  by (induction ys arbitrary: a) (simp_all add: min.commute)

lemma foldl_max_fold: "foldl max (a::int) ys = fold max ys a"
  by (induction ys arbitrary: a) (simp_all add: max.commute)

lemma foldl_min_Min: "foldl min (a::int) ys = Min (set (a # ys))"
  by (simp only: foldl_min_fold Min.set_eq_fold)

lemma foldl_max_Max: "foldl max (a::int) ys = Max (set (a # ys))"
  by (simp only: foldl_max_fold Max.set_eq_fold)

lemma Math_min_ints:
  "ds \<noteq> [] \<Longrightarrow> Math_min (map (\<lambda>i. Num (of_int i)) ds) = Num (of_int (Min (set ds)))"
  by (cases ds) (simp_all add: Math_min_def foldl_min_Num foldl_min_Min)

lemma Math_max_ints:
  "ds \<noteq> [] \<Longrightarrow> Math_max (map (\<lambda>i. Num (of_int i)) ds) = Num (of_int (Max (set ds)))"
  by (cases ds) (simp_all add: Math_max_def foldl_max_Num foldl_max_Max)

lemma TimeClip_int:
  "\<bar>i\<bar> \<le> 8640000000000000 \<Longrightarrow> TimeClip (Num (of_int i)) = Num (of_int i)"
  by (auto simp add: TimeClip_def)


lemma calculateMetrics_daysDiff:
  assumes "txs \<noteq> []" and "\<forall>t \<in> set txs. valid_Date (date t)"
  shows "js_div (js_sub (TimeClip (Math_max (map (\<lambda>t. Num (of_int (getTime (date t)))) txs)))
                        (TimeClip (Math_min (map (\<lambda>t. Num (of_int (getTime (date t)))) txs))))
           (Num (1000 * 60 * 60 * 24)) = Num (daysDiffOf txs)"
proof -
  let ?ds = "map (\<lambda>t. getTime (date t)) txs"
  have ne: "?ds \<noteq> []" using assms(1) by simp
  have maps: "map (\<lambda>t. Num (of_int (getTime (date t)))) txs = map (\<lambda>i. Num (of_int i)) ?ds"
    by simp
  have bound: "\<bar>i\<bar> \<le> 8640000000000000" if "i \<in> set ?ds" for i
    using that assms(2) by (auto simp: valid_Date_def)
  have "Min (set ?ds) \<in> set ?ds" using ne by (intro Min_in) auto
  then have lo: "TimeClip (Num (of_int (Min (set ?ds)))) = Num (of_int (Min (set ?ds)))"
    using bound by (intro TimeClip_int) blast
  have "Max (set ?ds) \<in> set ?ds" using ne by (intro Max_in) auto
  then have hi: "TimeClip (Num (of_int (Max (set ?ds)))) = Num (of_int (Max (set ?ds)))"
    using bound by (intro TimeClip_int) blast
  show ?thesis
    unfolding maps Math_min_ints [OF ne] Math_max_ints [OF ne] lo hi
    by (simp add: daysDiffOf_def)
qed

text \<open>
  C4 (as stated: the denominators are \<open>max(1, whole days)\<close> and
  \<open>max(1, dateSpanDays / 30)\<close>). Two expenses of 30 that are 15 days apart give a monthly
  average of \<open>60 / 0.5 = 120\<close>, where the claim gives \<open>60 / max(1, 0.5) = 60\<close>; the same
  expenses 12 hours apart give a daily average of \<open>60 / 0.5 = 120\<close>, where the claim
  gives \<open>60 / max(1, 0) = 60\<close>.
\<close>

theorem averages_not_clamped_to_one:
  "averageMonthly (calculateMetrics fortnight) = Num 120
   \<and> spec_averageMonthly fortnight = 60
   \<and> averageMonthly (calculateMetrics fortnight) \<noteq> Num (spec_averageMonthly fortnight)
   \<and> averageDaily (calculateMetrics same_day) = Num 120
   \<and> spec_averageDaily same_day = 60
   \<and> averageDaily (calculateMetrics same_day) \<noteq> Num (spec_averageDaily same_day)"
proof -
  have "averageMonthly (calculateMetrics fortnight) = Num 120"
    and "averageDaily (calculateMetrics same_day) = Num 120"
    by (simp_all add: metrics_eval fortnight_def same_day_def)
  moreover have "spec_averageMonthly fortnight = 60"
    by (simp add: spec_averageMonthly_def spec_dateSpanDays_def expensesOf_def fortnight_def
        on_day_def)
  moreover have "spec_averageDaily same_day = 60"
    by (simp add: spec_averageDaily_def spec_dateSpanDays_def expensesOf_def same_day_def
        on_day_def)
  ultimately show ?thesis by simp
qed

text \<open>
  C4 (amended): for every non-empty sequence of transactions with valid dates, the day
  difference is the time between the earliest and the latest date over all transactions,
  income and expense alike, in days and as a fraction (not rounded to whole days);
  \<open>averageDaily\<close> is the total spending divided by the day difference and
  \<open>averageMonthly\<close> is the total spending divided by the day difference over 30, and a
  denominator is replaced by 1 only when it is 0, that is, when all transactions share a
  single instant.
\<close>

theorem averages_use_fractional_days:
  assumes "txs \<noteq> []" and "\<forall>t \<in> set txs. valid_Date (date t)"
  shows "averageDaily (calculateMetrics txs) =
           Num (sum_list (map amount (expensesOf txs))
                / (if daysDiffOf txs = 0 then 1 else daysDiffOf txs))
         \<and> averageMonthly (calculateMetrics txs) =
           Num (sum_list (map amount (expensesOf txs))
                / (if daysDiffOf txs / 30 = 0 then 1 else daysDiffOf txs / 30))"
  using calculateMetrics_daysDiff [OF assms]
  by (simp add: calculateMetrics_def Let_def foldl_add_sum_list expensesOf_def)

theorem averages_use_fractional_days_witness:
  "fortnight \<noteq> [] \<and> list_all (\<lambda>t. valid_Date (date t)) fortnight
   \<and> daysDiffOf fortnight = 15
   \<and> averageDaily (calculateMetrics fortnight) = Num 4
   \<and> averageMonthly (calculateMetrics fortnight) = Num 120"
proof -
  have ne: "fortnight \<noteq> []" and valid: "\<forall>t \<in> set fortnight. valid_Date (date t)"
    by (simp_all add: fortnight_def on_day_def valid_Date_def)
  have days: "daysDiffOf fortnight = 15"
    by (simp add: daysDiffOf_def fortnight_def on_day_def)
  have total: "sum_list (map amount (expensesOf fortnight)) = 60"
    by (simp add: expensesOf_def fortnight_def on_day_def)
  show ?thesis
    using averages_use_fractional_days [OF ne valid] ne valid
    by (simp add: days total list_all_iff)
qed

section \<open>The category breakdown\<close>

lemma foldl_count: "foldl (\<lambda>v t. Suc v) n xs = n + length xs"
  by (induction xs arbitrary: n) auto

lemma calculateCategoryBreakdown_eq:
  "calculateCategoryBreakdown expenses =
     sort_key (\<lambda>b. - total b)
       (map (\<lambda>c. \<lparr> bcategory = c,
                    total = sum_list (map amount (filter (\<lambda>t. category t = c) expenses)),
                    percentage =
                      js_mul (js_div (Num (sum_list (map amount (filter (\<lambda>t. category t = c) expenses))))
                                     (Num (sum_list (map amount expenses))))
                        (Num 100),
                    transactionCount = length (filter (\<lambda>t. category t = c) expenses) \<rparr>)
          (first_seen (map category expenses)))"
proof -
  have totals:
    "foldl (\<lambda>m t. Map_upsert m (category t) 0 (\<lambda>currentTotal. currentTotal + amount t)) [] expenses
     = map (\<lambda>k. (k, sum_list (map amount (filter (\<lambda>t. category t = k) expenses))))
         (first_seen (map category expenses))"
    using Map_upsert_fold [of category "0::real" "\<lambda>v t. v + amount t" expenses]
    by (simp add: foldl_add_sum_list)
  have counts:
    "foldl (\<lambda>m t. Map_upsert m (category t) (0::nat) (\<lambda>currentCount. currentCount + 1)) [] expenses
     = map (\<lambda>k. (k, length (filter (\<lambda>t. category t = k) expenses)))
         (first_seen (map category expenses))"
    using Map_upsert_fold [of category "0::nat" "\<lambda>v t. v + 1" expenses]
    by (simp add: foldl_count)
  show ?thesis
    unfolding calculateCategoryBreakdown_def Let_def totals counts Array_sort_desc
    by (rule arg_cong [where f = "sort_key (\<lambda>b. - total b)"])
       (simp add: foldl_add_sum_list map_of_map_keys del: js_div.simps js_mul.simps)
qed

text \<open>Where the expenses do not sum to 0, every percentage is the finite number
  \<open>total / totalSpending * 100\<close>.\<close>

lemma percentage_finite_unless_zero_spending:
  assumes "totalSpending (calculateMetrics txs) \<noteq> 0"
    and "b \<in> set (categoryBreakdown (calculateMetrics txs))"
  shows "percentage b = Num (total b / totalSpending (calculateMetrics txs) * 100)"
    and "is_finite (percentage b)"
proof -
  have spending: "totalSpending (calculateMetrics txs) = sum_list (map amount (expensesOf txs))"
    by (simp add: calculateMetrics_def Let_def foldl_add_sum_list expensesOf_def)
  have "b \<in> set (calculateCategoryBreakdown (expensesOf txs))"
    using assms(2) by (simp add: calculateMetrics_def Let_def expensesOf_def)
  then show "percentage b = Num (total b / totalSpending (calculateMetrics txs) * 100)"
    using assms(1) unfolding spending calculateCategoryBreakdown_eq by auto
  then show "is_finite (percentage b)"
    by (simp add: is_finite_def)
qed




section \<open>The Recurring Charge Detector\<close>

lemma descriptionGroups_eq:
  "descriptionGroups txs = map (\<lambda>k. (k, groupOf txs k)) (recurringKeys txs)"
  using Map_upsert_fold [of "\<lambda>t. normalizeDescription (description t)" "[]" "\<lambda>v t. v @ [t]" txs]
  by (simp add: descriptionGroups_def Let_def foldl_snoc groupOf_def recurringKeys_def)

lemma sort_times:
  "Array_sort (\<lambda>a b. Number_subtract a b) (map (\<lambda>t. real_of_int (getTime (date t))) g)
   = sort (map (\<lambda>t. real_of_int (getTime (date t))) g)"
proof -
  let ?xs = "map (\<lambda>t. real_of_int (getTime (date t))) g"
  have "\<forall>a \<in> set ?xs. \<forall>b \<in> set ?xs. (0 < Number_subtract a b) = (b < a)"
    by (auto simp: Number_subtract_pos_iff)
  then show ?thesis
    using Array_sort_map [where xs = ?xs and cmp = Number_subtract and f = "\<lambda>x. x"] by simp
qed

lemma recurringGroup_eq:
  "recurringGroup desc g =
     (if 2 \<le> length g
         \<and> list_all (\<lambda>t. \<bar>Number_subtract (amount t) (groupMean g)\<bar>
                          < Number_multiply (groupMean g) (round_double 0.1)) g
         \<and> 25 \<le> averageGapDays g \<and> averageGapDays g \<le> 35
      then [\<lparr> ptype = recurring_charge,
              pdescription = RecurringMonthlyCharge desc (groupMean g),
              transactions = g,
              severity = (if 50 < groupMean g then medium else low),
              impact = Number_multiply (groupMean g) 12 \<rparr>]
      else [])"
proof -
  define M where "M = groupMean g"
  define V where "V = list_all (\<lambda>t. \<bar>Number_subtract (amount t) M\<bar>
                                      < Number_multiply M (round_double 0.1)) g"
  define D where "D = averageGapDays g"
  let ?ts = "map (\<lambda>t. real_of_int (getTime (date t))) g"
  have avg: "Number_divide (Number_sum (map amount g)) (real (length (map amount g))) = M"
    by (simp add: groupMean_def M_def)
  have var: "list_all (\<lambda>amt. \<bar>Number_subtract amt M\<bar> < Number_multiply M (round_double 0.1))
               (map amount g) = V"
    unfolding V_def list.pred_map comp_def ..
  have days:
    "Number_divide
       (Number_divide
          (Number_sum (map (\<lambda>i. Number_subtract (sort ?ts ! i) (sort ?ts ! (i - 1)))
                         [1 ..< length (sort ?ts)]))
          (real (length (map (\<lambda>i. Number_subtract (sort ?ts ! i) (sort ?ts ! (i - 1)))
                               [1 ..< length (sort ?ts)]))))
       (1000 * 60 * 60 * 24) = D"
    by (simp add: D_def averageGapDays_def Let_def)
  have "recurringGroup desc g =
     (if 2 \<le> length g \<and> V \<and> 25 \<le> D \<and> D \<le> 35
      then [\<lparr> ptype = recurring_charge, pdescription = RecurringMonthlyCharge desc M,
              transactions = g, severity = (if 50 < M then medium else low),
              impact = Number_multiply M 12 \<rparr>]
      else [])"
    unfolding recurringGroup_def Let_def sort_times avg var days by simp
  then show ?thesis
    unfolding M_def V_def D_def .
qed

text \<open>
  C7 (as stated: a group is emitted exactly when every amount lies within 10% of the
  group mean and the average gap lies in [25, 35]). The two free-trial charges of 0 form
  one group; every amount equals the group mean, so it lies within 10% of it, and the
  average gap is 30 days; yet no pattern is emitted, because the code asks for a
  deviation strictly below the mean times 0.1, which is \<open>0 < 0\<close> here. Likewise the gym
  fees of 90 and 110 deviate by exactly 10% from their mean of 100 and are not emitted:
  the test is \<open>10 < 10\<close>.
\<close>

theorem zero_amount_group_rejected:
  "groupOf free_trial ''free trial'' = free_trial
   \<and> 2 \<le> length free_trial
   \<and> spec_within_10_percent free_trial
   \<and> spec_averageGapDays free_trial = 30
   \<and> findRecurringCharges free_trial = []
   \<and> groupOf gym_fees ''gym'' = gym_fees
   \<and> 2 \<le> length gym_fees
   \<and> spec_within_10_percent gym_fees
   \<and> spec_averageGapDays gym_fees = 30
   \<and> findRecurringCharges gym_fees = []"
proof -
  have names: "normalizeDescription ''Free trial'' = ''free trial''"
    "normalizeDescription ''Gym'' = ''gym''"
    by code_simp+
  have "findRecurringCharges free_trial = []" and "findRecurringCharges gym_fees = []"
    by (simp_all add: recurring_eval free_trial_def gym_fees_def names)
  moreover have "groupOf free_trial ''free trial'' = free_trial"
    and "groupOf gym_fees ''gym'' = gym_fees"
    by (simp_all add: groupOf_def free_trial_def gym_fees_def on_day_def names)
  moreover have "spec_within_10_percent free_trial" and "spec_within_10_percent gym_fees"
    by (simp_all add: spec_within_10_percent_def spec_mean_def free_trial_def gym_fees_def
        on_day_def)
  moreover have "spec_averageGapDays free_trial = 30" and "spec_averageGapDays gym_fees = 30"
    by (simp_all add: spec_averageGapDays_def spec_mean_def free_trial_def gym_fees_def on_day_def)
  moreover have "2 \<le> length free_trial" and "2 \<le> length gym_fees"
    by (simp_all add: free_trial_def gym_fees_def)
  ultimately show ?thesis by simp
qed

text \<open>
  At the bound of 10% the rounding decides. The locker fees of 0.27 and 0.33 and the
  parking fees of 0.81 and 0.99 lie 10% from the mean of their pair in decimal
  arithmetic, and within 10% of it in exact arithmetic on the doubles. In the arithmetic
  of the doubles the mean of the locker fees is 0.30000000000000004, a tenth of it is
  0.030000000000000006 and the fee of 0.27 deviates by 0.030000000000000027: nothing is
  emitted. The mean of the parking fees is 0.9, a tenth of it is 0.09000000000000001 and
  both fees deviate by 0.08999999999999997: the pattern is emitted.
\<close>

lemma rounding_decides_at_ten_percent:
  "spec_within_10_percent locker_fees
   \<and> groupMean locker_fees = round_double 0.30000000000000004
   \<and> Number_multiply (groupMean locker_fees) (round_double 0.1) = round_double 0.030000000000000006
   \<and> \<bar>Number_subtract (round_double 0.27) (groupMean locker_fees)\<bar> = round_double 0.030000000000000027
   \<and> findRecurringCharges locker_fees = []
   \<and> spec_within_10_percent parking_fees
   \<and> groupMean parking_fees = round_double 0.9
   \<and> Number_multiply (groupMean parking_fees) (round_double 0.1) = round_double 0.09000000000000001
   \<and> \<bar>Number_subtract (round_double 0.81) (groupMean parking_fees)\<bar> = round_double 0.08999999999999997
   \<and> \<bar>Number_subtract (round_double 0.99) (groupMean parking_fees)\<bar> = round_double 0.08999999999999997
   \<and> map transactions (findRecurringCharges parking_fees) = [parking_fees]"
proof -
  have names: "normalizeDescription ''Locker'' = ''locker''"
    "normalizeDescription ''Parking'' = ''parking''"
    by code_simp+
  have "findRecurringCharges locker_fees = []"
    by (simp add: recurring_eval locker_fees_def names)
  moreover have "map transactions (findRecurringCharges parking_fees) = [parking_fees]"
    by (simp add: recurring_eval parking_fees_def names)
  moreover have "spec_within_10_percent locker_fees" and "spec_within_10_percent parking_fees"
    by (simp_all add: spec_within_10_percent_def spec_mean_def locker_fees_def parking_fees_def
        on_day_def number_eval)
  moreover have "groupMean locker_fees = round_double 0.30000000000000004"
    and "groupMean parking_fees = round_double 0.9"
    by (simp_all add: groupMean_def locker_fees_def parking_fees_def on_day_def number_eval)
  moreover have
    "Number_multiply (round_double 0.30000000000000004) (round_double 0.1) = round_double 0.030000000000000006"
    "\<bar>Number_subtract (round_double 0.27) (round_double 0.30000000000000004)\<bar> = round_double 0.030000000000000027"
    "Number_multiply (round_double 0.9) (round_double 0.1) = round_double 0.09000000000000001"
    "\<bar>Number_subtract (round_double 0.81) (round_double 0.9)\<bar> = round_double 0.08999999999999997"
    "\<bar>Number_subtract (round_double 0.99) (round_double 0.9)\<bar> = round_double 0.08999999999999997"
    by (simp_all add: number_eval)
  ultimately show ?thesis by simp
qed

text \<open>
  C7 (amended): the Recurring Charge Detector groups the transactions by normalized
  description and, for every group with at least 2 members, emits a \<open>recurring_charge\<close>
  pattern exactly when, in the arithmetic of the doubles (every sum, difference, product
  and quotient rounded, and none of them overflowing), every member's amount differs
  from the group mean by strictly less than the mean times 0.1 (so a group whose mean is
  0 is never emitted) and the average of the consecutive day-gaps of the ascending-sorted
  dates lies in [25, 35]; the pattern has impact = mean * 12, severity \<open>medium\<close> if the
  mean exceeds 50 and \<open>low\<close> otherwise, and attaches the whole group. Groups with fewer
  than 2 members emit nothing.
\<close>

theorem recurring_charges_by_group:
  "findRecurringCharges txs =
     concat (map (\<lambda>k.
        if 2 \<le> length (groupOf txs k)
           \<and> list_all (\<lambda>t. \<bar>Number_subtract (amount t) (groupMean (groupOf txs k))\<bar>
                            < Number_multiply (groupMean (groupOf txs k)) (round_double 0.1))
                (groupOf txs k)
           \<and> 25 \<le> averageGapDays (groupOf txs k) \<and> averageGapDays (groupOf txs k) \<le> 35
        then [\<lparr> ptype = recurring_charge,
                pdescription = RecurringMonthlyCharge k (groupMean (groupOf txs k)),
                transactions = groupOf txs k,
                severity = (if 50 < groupMean (groupOf txs k) then medium else low),
                impact = Number_multiply (groupMean (groupOf txs k)) 12 \<rparr>]
        else [])
      (recurringKeys txs))"
  by (simp add: findRecurringCharges_def descriptionGroups_eq comp_def recurringGroup_eq)

theorem recurring_charges_by_group_witness:
  "recurringKeys netflix_charges = [''netflix'']
   \<and> groupOf netflix_charges ''netflix'' = netflix_charges
   \<and> groupMean netflix_charges = 15
   \<and> averageGapDays netflix_charges = 30
   \<and> findRecurringCharges netflix_charges =
       [\<lparr> ptype = recurring_charge, pdescription = RecurringMonthlyCharge ''netflix'' 15,
          transactions = netflix_charges, severity = low, impact = 180 \<rparr>]"
proof -
  have name: "normalizeDescription ''Netflix'' = ''netflix''"
    by code_simp
  have keys: "recurringKeys netflix_charges = [''netflix'']"
    and group: "groupOf netflix_charges ''netflix'' = netflix_charges"
    by (simp_all add: recurringKeys_def groupOf_def first_seen_def netflix_charges_def
        on_day_def name)
  have mean: "groupMean netflix_charges = 15"
    by (simp add: groupMean_def netflix_charges_def on_day_def number_eval)
  have gap: "averageGapDays netflix_charges = 30"
    by (simp add: averageGapDays_def netflix_charges_def on_day_def number_eval)
  have two: "2 \<le> length netflix_charges"
    by (simp add: netflix_charges_def)
  show ?thesis
    using recurring_charges_by_group [of netflix_charges] two
    by (simp add: keys group mean gap) (simp add: netflix_charges_def on_day_def number_eval)
qed

section \<open>The Spending Spike Detector\<close>

lemma monthKeyOf_inj: "monthKeyOf a = monthKeyOf b \<longleftrightarrow> a = b"
  using spikeMonthKey_eq_iff
    [of "\<lparr> getTime = 0, getFullYear = fst a, getMonth = snd a \<rparr>"
        "\<lparr> getTime = 0, getFullYear = fst b, getMonth = snd b \<rparr>"]
  by (simp add: spikeMonthKey_def monthKeyOf_def prod_eq_iff)

lemma spikeMonthKey_calendarMonth: "spikeMonthKey (date t) = monthKeyOf (calendarMonth t)"
  by (simp add: spikeMonthKey_def monthKeyOf_def calendarMonth_def)

lemma group_by_category:
  "foldl (\<lambda>cm t. Map_upsert cm (category t) [] (\<lambda>txns. txns @ [t])) [] ys =
   map (\<lambda>c. (c, filter (\<lambda>t. category t = c) ys)) (first_seen (map category ys))"
  using Map_upsert_fold [of category "[]" "\<lambda>v t. v @ [t]" ys]
  by (simp add: foldl_snoc)

lemma monthlyByCategory_eq:
  "monthlyByCategory txs =
     map (\<lambda>k. (k, map (\<lambda>c. (c, filter (\<lambda>t. category t = c)
                                   (filter (\<lambda>t. spikeMonthKey (date t) = k) (expensesOf txs))))
                     (first_seen (map category
                        (filter (\<lambda>t. spikeMonthKey (date t) = k) (expensesOf txs))))))
       (first_seen (map (\<lambda>t. spikeMonthKey (date t)) (expensesOf txs)))"
  using Map_upsert_fold [of "\<lambda>t. spikeMonthKey (date t)" "[]"
      "\<lambda>cm t. Map_upsert cm (category t) [] (\<lambda>txns. txns @ [t])" "expensesOf txs"]
  by (simp add: monthlyByCategory_def Let_def foldl_skip expensesOf_def group_by_category)


lemma categoryMonthlyTotals_eq:
  "categoryMonthlyTotals txs =
     map (\<lambda>c. (c, map (\<lambda>p. Number_sum (map amount (snd p)))
                     (filter (\<lambda>p. fst p = c) (concat (map snd (monthlyByCategory txs))))))
       (first_seen (map fst (concat (map snd (monthlyByCategory txs)))))"
  using Map_upsert_fold [of fst "[]" "\<lambda>v p. v @ [Number_sum (map amount (snd p))]"
      "concat (map snd (monthlyByCategory txs))"]
  by (simp add: categoryMonthlyTotals_def Let_def case_prod_unfold Number_sum_foldl foldl_snoc_map)

lemma spikeOfCategory_category:
  "p \<in> set (spikeOfCategory c totals) \<Longrightarrow> spikeCategory p = Some c"
  by (auto simp: spikeOfCategory_def Let_def spikeCategory_def split: if_splits)

lemma filter_spikes_of_other:
  "c' \<noteq> c \<Longrightarrow> filter (\<lambda>p. spikeCategory p = Some c) (spikeOfCategory c' totals) = []"
  by (auto simp: filter_empty_conv dest: spikeOfCategory_category)

lemma filter_spikes_of_same:
  "filter (\<lambda>p. spikeCategory p = Some c) (spikeOfCategory c totals) = spikeOfCategory c totals"
  by (auto simp: filter_id_conv dest: spikeOfCategory_category)

lemma filter_spikes_concat:
  "distinct cs \<Longrightarrow>
   filter (\<lambda>p. spikeCategory p = Some c) (concat (map (\<lambda>c'. spikeOfCategory c' (T c')) cs))
   = (if c \<in> set cs then spikeOfCategory c (T c) else [])"
proof (induction cs)
  case Nil
  then show ?case by simp
next
  case (Cons a cs)
  then show ?case
    by (cases "a = c") (auto simp: filter_spikes_of_same filter_spikes_of_other)
qed

lemma spikeOfCategory_Nil: "spikeOfCategory c [] = []"
  by (simp add: spikeOfCategory_def)

lemma findSpendingSpikes_by_category:
  "filter (\<lambda>p. spikeCategory p = Some c) (findSpendingSpikes txs) =
     spikeOfCategory c
       (map (\<lambda>p. Number_sum (map amount (snd p)))
          (filter (\<lambda>p. fst p = c) (concat (map snd (monthlyByCategory txs)))))"
proof -
  let ?L = "concat (map snd (monthlyByCategory txs))"
  let ?T = "\<lambda>c. map (\<lambda>p. Number_sum (map amount (snd p))) (filter (\<lambda>p. fst p = c) ?L)"
  have "findSpendingSpikes txs = concat (map (\<lambda>c'. spikeOfCategory c' (?T c')) (first_seen (map fst ?L)))"
    by (simp add: findSpendingSpikes_def categoryMonthlyTotals_eq comp_def)
  then have "filter (\<lambda>p. spikeCategory p = Some c) (findSpendingSpikes txs)
             = (if c \<in> set (first_seen (map fst ?L)) then spikeOfCategory c (?T c) else [])"
    using filter_spikes_concat [of "first_seen (map fst ?L)" c ?T] by simp
  moreover have "?T c = []" if "c \<notin> set (first_seen (map fst ?L))"
  proof -
    have "filter (\<lambda>p. fst p = c) ?L = []"
      using that unfolding filter_empty_conv set_first_seen by force
    then show ?thesis by simp
  qed
  ultimately show ?thesis
    by (auto simp: spikeOfCategory_Nil)
qed


lemma observed_keys:
  "first_seen (map (\<lambda>t. spikeMonthKey (date t)) (expensesOf txs)) = map monthKeyOf (observedMonths txs)"
  using first_seen_map_inj [where f = monthKeyOf and g = calendarMonth and xs = "expensesOf txs"]
  by (simp add: observedMonths_def monthKeyOf_inj spikeMonthKey_calendarMonth)

lemma cell_of_key:
  "filter (\<lambda>t. spikeMonthKey (date t) = monthKeyOf ym \<and> category t = c) (expensesOf txs)
   = monthCell txs ym c"
  by (simp add: monthCell_def spikeMonthKey_calendarMonth monthKeyOf_inj)

lemma category_seen_in_month:
  "c \<in> category ` {t \<in> set (expensesOf txs). spikeMonthKey (date t) = monthKeyOf ym}
   \<longleftrightarrow> monthCell txs ym c \<noteq> []"
  by (auto simp add: monthCell_def spikeMonthKey_calendarMonth monthKeyOf_inj filter_empty_conv)

lemma totals_of_category:
  "map (\<lambda>p. Number_sum (map amount (snd p)))
     (filter (\<lambda>p. fst p = c) (concat (map snd (monthlyByCategory txs))))
   = monthlyTotalsOf txs c"
proof -
  let ?cats = "\<lambda>ym. first_seen (map category
                 (filter (\<lambda>t. spikeMonthKey (date t) = monthKeyOf ym) (expensesOf txs)))"
  have L: "concat (map snd (monthlyByCategory txs))
           = concat (map (\<lambda>ym. map (\<lambda>c. (c, monthCell txs ym c)) (?cats ym)) (observedMonths txs))"
    by (simp add: monthlyByCategory_eq observed_keys comp_def cell_of_key)
  have "filter (\<lambda>p. fst p = c) (concat (map snd (monthlyByCategory txs)))
        = concat (map (\<lambda>ym. if monthCell txs ym c \<noteq> [] then [(c, monthCell txs ym c)] else [])
                   (observedMonths txs))"
    unfolding L
    by (simp add: filter_concat comp_def filter_key_map category_seen_in_month)
  then have "map (\<lambda>p. Number_sum (map amount (snd p)))
               (filter (\<lambda>p. fst p = c) (concat (map snd (monthlyByCategory txs))))
             = concat (map (\<lambda>ym. if monthCell txs ym c \<noteq> []
                                   then [Number_sum (map amount (monthCell txs ym c))] else [])
                   (observedMonths txs))"
    by (simp add: map_concat comp_def if_distrib cong: if_cong)
  then show ?thesis
    by (simp add: concat_map_if monthlyTotalsOf_def categoryMonths_def)
qed

lemma spikeOfCategory_eq:
  "spikeOfCategory c totals =
     (if 2 \<le> length totals \<and> Number_multiply (meanOf totals) 1.5 < Max (set totals)
      then [\<lparr> ptype = spending_spike,
              pdescription = SpendingSpikeIn c (Max (set totals)) (meanOf totals),
              transactions = [],
              severity = (if 500 < Number_subtract (Max (set totals)) (meanOf totals)
                          then high else medium),
              impact = Number_subtract (Max (set totals)) (meanOf totals) \<rparr>]
      else [])"
proof -
  define M where "M = meanOf totals"
  have avg: "Number_divide (Number_sum totals) (real (length totals)) = M"
    by (simp add: M_def meanOf_def)
  have "spikeOfCategory c totals =
     (if 2 \<le> length totals \<and> Number_multiply M 1.5 < Max (set totals)
      then [\<lparr> ptype = spending_spike,
              pdescription = SpendingSpikeIn c (Max (set totals)) M,
              transactions = [],
              severity = (if 500 < Number_subtract (Max (set totals)) M then high else medium),
              impact = Number_subtract (Max (set totals)) M \<rparr>]
      else [])"
    unfolding spikeOfCategory_def Let_def avg by (simp add: not_less)
  then show ?thesis unfolding M_def .
qed

text \<open>
  C8 (as stated: a spike is emitted exactly when the maximum monthly total exceeds 1.5
  times the mean of the monthly totals). The monthly totals of the coffee expenses are
  7.20, 7.20 and 14.40. Their mean is 9.60 and 1.5 times the mean is 14.40 in decimal
  arithmetic, and in exact arithmetic on the doubles 1.5 times the mean is the maximum
  itself: the maximum does not exceed it. The code computes the mean 9.6 and the product
  9.6 * 1.5 = 14.399999999999999, which is below the maximum, and emits a spike of impact
  4.800000000000001.
\<close>

theorem spike_without_exceeding:
  "monthlyTotalsOf coffee Food_Dining = [round_double 7.2, round_double 7.2, round_double 14.4]
   \<and> \<not> spec_exceeds_mean_by_half (monthlyTotalsOf coffee Food_Dining)
   \<and> \<not> spec_exceeds_mean_by_half [7.2, 7.2, 14.4]
   \<and> meanOf (monthlyTotalsOf coffee Food_Dining) = round_double 9.6
   \<and> Number_multiply (meanOf (monthlyTotalsOf coffee Food_Dining)) 1.5
       = round_double 14.399999999999999
   \<and> findSpendingSpikes coffee =
       [\<lparr> ptype = spending_spike,
          pdescription = SpendingSpikeIn Food_Dining (round_double 14.4) (round_double 9.6),
          transactions = [], severity = medium, impact = round_double 4.800000000000001 \<rparr>]"
proof -
  have totals:
    "monthlyTotalsOf coffee Food_Dining = [round_double 7.2, round_double 7.2, round_double 14.4]"
    by (simp add: monthlyTotalsOf_def categoryMonths_def observedMonths_def monthCell_def
        expensesOf_def calendarMonth_def first_seen_def coffee_def on_day_def number_eval)
  have exact: "\<not> spec_exceeds_mean_by_half [round_double 7.2, round_double 7.2, round_double 14.4]"
    by (simp add: spec_exceeds_mean_by_half_def spec_mean_def number_eval)
  have decimal: "\<not> spec_exceeds_mean_by_half [7.2, 7.2, 14.4]"
    by (simp add: spec_exceeds_mean_by_half_def spec_mean_def)
  have mean: "meanOf [round_double 7.2, round_double 7.2, round_double 14.4] = round_double 9.6"
    by (simp add: meanOf_def number_eval)
  have product: "Number_multiply (round_double 9.6) 1.5 = round_double 14.399999999999999"
    by (simp add: number_eval)
  have spikes: "findSpendingSpikes coffee =
       [\<lparr> ptype = spending_spike,
          pdescription = SpendingSpikeIn Food_Dining (round_double 14.4) (round_double 9.6),
          transactions = [], severity = medium, impact = round_double 4.800000000000001 \<rparr>]"
    by (simp add: spikes_eval coffee_def)
  show ?thesis
    unfolding totals mean
    using exact decimal product spikes by simp
qed

text \<open>
  C8 (amended): the spike patterns that \<open>findSpendingSpikes\<close> emits for a category are
  determined by the totals of the category's expenses in the observed calendar months in
  which it has expenses, in the arithmetic of the doubles (every sum, difference, product
  and quotient rounded, and none of them overflowing): with at least 2 such months
  and a maximum total above the rounded product of the mean of the totals and 1.5,
  exactly one \<open>spending_spike\<close> pattern is emitted for it, with impact the rounded
  difference maximum - mean, severity \<open>high\<close> if that exceeds 500 and \<open>medium\<close> otherwise,
  and no transactions attached; otherwise none is emitted for it. Every emitted pattern
  is about some category. The totals are taken over all expense transactions: nothing is
  excluded for being a recurring charge, as in the example of the monthly totals 100,
  100, 100 and 400 (mean 175, impact 225, severity \<open>medium\<close>).
\<close>

theorem spikes_by_category:
  "filter (\<lambda>p. spikeCategory p = Some c) (findSpendingSpikes txs) =
     (if 2 \<le> length (monthlyTotalsOf txs c)
         \<and> Number_multiply (meanOf (monthlyTotalsOf txs c)) 1.5 < Max (set (monthlyTotalsOf txs c))
      then [\<lparr> ptype = spending_spike,
              pdescription = SpendingSpikeIn c (Max (set (monthlyTotalsOf txs c)))
                               (meanOf (monthlyTotalsOf txs c)),
              transactions = [],
              severity = (if 500 < Number_subtract (Max (set (monthlyTotalsOf txs c)))
                                     (meanOf (monthlyTotalsOf txs c))
                          then high else medium),
              impact = Number_subtract (Max (set (monthlyTotalsOf txs c)))
                         (meanOf (monthlyTotalsOf txs c)) \<rparr>]
      else [])
   \<and> list_all (\<lambda>p. spikeCategory p \<noteq> None) (findSpendingSpikes txs)"
proof -
  have "list_all (\<lambda>p. spikeCategory p \<noteq> None) (findSpendingSpikes txs)"
    by (auto simp: list_all_iff findSpendingSpikes_def dest: spikeOfCategory_category)
  then show ?thesis
    unfolding findSpendingSpikes_by_category totals_of_category
    by (simp only: spikeOfCategory_eq simp_thms)
qed

theorem spikes_by_category_witness:
  "monthlyTotalsOf storage_and_repair Housing = [100, 100, 100, 400]
   \<and> filter (\<lambda>p. spikeCategory p = Some Housing) (findSpendingSpikes storage_and_repair)
       = [housing_spike]
   \<and> findSpendingSpikes storage_and_repair = [housing_spike]
   \<and> map transactions (findRecurringCharges storage_and_repair) = [take 4 storage_and_repair]"
proof -
  have totals: "monthlyTotalsOf storage_and_repair Housing = [100, 100, 100, 400]"
    by (simp add: monthlyTotalsOf_def categoryMonths_def observedMonths_def monthCell_def
        expensesOf_def calendarMonth_def first_seen_def storage_and_repair_def on_day_def
        number_eval)
  have spikes: "findSpendingSpikes storage_and_repair = [housing_spike]"
    by (simp add: spikes_eval housing_spike_def storage_and_repair_def)
  have names: "normalizeDescription ''Storage rent'' = ''storage rent''"
    "normalizeDescription ''Roof repair'' = ''roof repair''"
    by code_simp+
  have recurring:
    "map transactions (findRecurringCharges storage_and_repair) = [take 4 storage_and_repair]"
    by (simp add: recurring_eval names storage_and_repair_def)
  have "filter (\<lambda>p. spikeCategory p = Some Housing) (findSpendingSpikes storage_and_repair)
        = [housing_spike]"
    using spikes_by_category [of Housing storage_and_repair]
    unfolding totals by (simp add: meanOf_def housing_spike_def number_eval)
  then show ?thesis
    using totals spikes recurring by simp
qed

section \<open>The Trend Detector\<close>

subsection \<open>The order of the month keys\<close>

lemma localeCompare_refl [simp]: "localeCompare xs xs = 0"
  by (induction xs) auto

lemma localeCompare_append:
  "length xs = length ys \<Longrightarrow>
   localeCompare (xs @ s) (ys @ t) = (if xs = ys then localeCompare s t else localeCompare xs ys)"
  by (induction xs ys rule: list_induct2) auto

lemma length_fixed_digits [simp]: "length (fixed_digits k n) = k"
  by (induction k arbitrary: n) auto

lemma localeCompare_digit:
  "a < 10 \<Longrightarrow> b < 10 \<Longrightarrow>
   localeCompare [char_of (48 + a)] [char_of (48 + (b::nat))]
   = (if a < b then - 1 else if b < a then 1 else 0)"
  by (simp add: digit_char_code)

lemma div_mod_less_iff:
  "(n::nat) < m \<longleftrightarrow> n div 10 < m div 10 \<or> (n div 10 = m div 10 \<and> n mod 10 < m mod 10)"
proof -
  define a b c d where "a = n div 10" and "b = n mod 10" and "c = m div 10" and "d = m mod 10"
  have n: "n = 10 * a + b" and m: "m = 10 * c + d" and small: "b < 10" "d < 10"
    by (simp_all add: a_def b_def c_def d_def)
  have "10 * a + b < 10 * c + d \<longleftrightarrow> a < c \<or> (a = c \<and> b < d)"
    using small by arith
  then show ?thesis
    unfolding n m by (simp add: a_def b_def c_def d_def)
qed

lemma localeCompare_fixed_digits:
  "n < 10 ^ k \<Longrightarrow> m < 10 ^ k \<Longrightarrow>
   localeCompare (fixed_digits k n) (fixed_digits k m)
   = (if n < m then - 1 else if m < n then 1 else 0)"
proof (induction k arbitrary: n m)
  case 0
  then show ?case by simp
next
  case (Suc k)
  have small: "n div 10 < 10 ^ k" "m div 10 < 10 ^ k"
    using Suc.prems by (simp_all add: less_mult_imp_div_less mult.commute)
  have IH: "localeCompare (fixed_digits k (n div 10)) (fixed_digits k (m div 10))
            = (if n div 10 < m div 10 then - 1 else if m div 10 < n div 10 then 1 else 0)"
    using Suc.IH [OF small] .
  have same: "fixed_digits k (n div 10) = fixed_digits k (m div 10) \<longleftrightarrow> n div 10 = m div 10"
  proof
    assume "fixed_digits k (n div 10) = fixed_digits k (m div 10)"
    then have "localeCompare (fixed_digits k (n div 10)) (fixed_digits k (m div 10)) = 0"
      by simp
    then show "n div 10 = m div 10"
      unfolding IH by (simp split: if_splits)
  qed simp
  have last: "localeCompare [char_of (48 + n mod 10)] [char_of (48 + m mod 10)]
              = (if n mod 10 < m mod 10 then - 1 else if m mod 10 < n mod 10 then 1 else 0)"
    by (rule localeCompare_digit) simp_all
  have "localeCompare (fixed_digits (Suc k) n) (fixed_digits (Suc k) m)
        = (if n div 10 = m div 10
           then (if n mod 10 < m mod 10 then - 1 else if m mod 10 < n mod 10 then 1 else 0)
           else (if n div 10 < m div 10 then - 1 else if m div 10 < n div 10 then 1 else 0))"
    by (simp only: fixed_digits.simps localeCompare_append length_fixed_digits same last IH)
  then show ?case
    using div_mod_less_iff [of n m] div_mod_less_iff [of m n] by auto
qed

lemma fixed_digits_4:
  "fixed_digits 4 n =
     [char_of (48 + n div 10 div 10 div 10 mod 10), char_of (48 + n div 10 div 10 mod 10),
      char_of (48 + n div 10 mod 10), char_of (48 + n mod 10)]"
proof -
  have four: "(4::nat) = Suc (Suc (Suc (Suc 0)))" by simp
  show ?thesis by (subst four) simp
qed

lemma fixed_digits_2:
  "fixed_digits 2 n = [char_of (48 + n div 10 mod 10), char_of (48 + n mod 10)]"
  by (simp add: numeral_2_eq_2)

lemma nat_to_string_four_digits:
  assumes "1000 \<le> n" and "n \<le> 9999"
  shows "nat_to_string n = fixed_digits 4 n"
proof -
  have "n div 10 div 10 div 10 < 10" "\<not> n < 10" "\<not> n div 10 < 10" "\<not> n div 10 div 10 < 10"
    using assms by auto
  then show ?thesis
    by (simp add: nat_to_string_large nat_to_string_small fixed_digits_4)
qed

lemma padStart2_two_digits:
  assumes "j < 100"
  shows "padStart2 (nat_to_string j) = fixed_digits 2 j"
proof (cases "j < 10")
  case True
  then show ?thesis
    by (simp add: padStart2_def nat_to_string_small fixed_digits_2 digit_chars)
next
  case False
  then have "j div 10 < 10" using assms by auto
  then show ?thesis
    using False by (simp add: padStart2_def nat_to_string_large nat_to_string_small fixed_digits_2)
qed


lemma trendMonthKey_index:
  "getMonth (date t) < 12 \<Longrightarrow> trendMonthKey (date t) = trendKeyOfIndex (monthIndex t)"
  by (simp add: trendMonthKey_def trendKeyOfIndex_def monthIndex_def)

lemma trendKeyOfIndex_fixed:
  assumes "12000 \<le> i" and "i \<le> 119999"
  shows "trendKeyOfIndex i
         = fixed_digits 4 (nat (i div 12)) @ CHR ''-'' # fixed_digits 2 (Suc (nat (i mod 12)))"
proof -
  have year: "1000 \<le> nat (i div 12)" "nat (i div 12) \<le> 9999" "\<not> i div 12 < 0"
    using assms by auto
  have month: "Suc (nat (i mod 12)) < 100"
    by (simp add: nat_less_iff)
  show ?thesis
    using year(3)
    by (simp add: trendKeyOfIndex_def int_to_string_def nat_to_string_four_digits [OF year(1,2)]
        padStart2_two_digits [OF month])
qed

lemma int_div_mod_less_iff:
  "(i::int) < j \<longleftrightarrow> i div 12 < j div 12 \<or> (i div 12 = j div 12 \<and> i mod 12 < j mod 12)"
proof -
  define a b c d where "a = i div 12" and "b = i mod 12" and "c = j div 12" and "d = j mod 12"
  have i: "i = 12 * a + b" and j: "j = 12 * c + d" and small: "0 \<le> b" "b < 12" "0 \<le> d" "d < 12"
    by (simp_all add: a_def b_def c_def d_def)
  have "12 * a + b < 12 * c + d \<longleftrightarrow> a < c \<or> (a = c \<and> b < d)"
    using small by arith
  then show ?thesis
    unfolding i j by (simp add: a_def b_def c_def d_def)
qed

lemma fixed_digits_eq_iff:
  assumes "n < 10 ^ k" and "m < 10 ^ k"
  shows "fixed_digits k n = fixed_digits k m \<longleftrightarrow> n = m"
proof
  assume "fixed_digits k n = fixed_digits k m"
  then have "localeCompare (fixed_digits k n) (fixed_digits k m) = 0"
    by simp
  then show "n = m"
    unfolding localeCompare_fixed_digits [OF assms] by (simp split: if_splits)
qed simp

lemma localeCompare_trendKey:
  assumes "12000 \<le> i" "i \<le> 119999" "12000 \<le> j" "j \<le> 119999"
  shows "localeCompare (trendKeyOfIndex i) (trendKeyOfIndex j)
         = (if i < j then - 1 else if j < i then 1 else 0)"
proof -
  define yi mi yj mj where "yi = nat (i div 12)" and "mi = Suc (nat (i mod 12))"
    and "yj = nat (j div 12)" and "mj = Suc (nat (j mod 12))"
  have year: "yi < 10 ^ 4" "yj < 10 ^ 4"
    using assms by (auto simp: yi_def yj_def)
  have month: "mi < 10 ^ 2" "mj < 10 ^ 2"
    by (simp_all add: nat_less_iff mi_def mj_def)
  have keys: "trendKeyOfIndex i = fixed_digits 4 yi @ CHR ''-'' # fixed_digits 2 mi"
    "trendKeyOfIndex j = fixed_digits 4 yj @ CHR ''-'' # fixed_digits 2 mj"
    unfolding yi_def mi_def yj_def mj_def
    by (rule trendKeyOfIndex_fixed [OF assms(1,2)], rule trendKeyOfIndex_fixed [OF assms(3,4)])
  have compare: "localeCompare (trendKeyOfIndex i) (trendKeyOfIndex j)
        = (if yi = yj
           then (if mi < mj then - 1 else if mj < mi then 1 else 0)
           else (if yi < yj then - 1 else if yj < yi then 1 else 0))"
    unfolding keys
    by (simp only: localeCompare_append length_fixed_digits fixed_digits_eq_iff [OF year]
        localeCompare.simps of_char_eq_iff localeCompare_fixed_digits [OF year]
        localeCompare_fixed_digits [OF month] less_irrefl if_False)
  have nonneg: "0 \<le> i div 12" "0 \<le> j div 12" "0 \<le> i mod 12" "0 \<le> j mod 12"
    using assms by simp_all
  have nat_less: "nat x < nat y \<longleftrightarrow> x < y" and nat_eq: "nat x = nat y \<longleftrightarrow> x = y"
    if "0 \<le> x" and "0 \<le> y" for x y :: int
    using that by arith+
  have years: "yi = yj \<longleftrightarrow> i div 12 = j div 12" "yi < yj \<longleftrightarrow> i div 12 < j div 12"
    "yj < yi \<longleftrightarrow> j div 12 < i div 12"
    unfolding yi_def yj_def
    using nat_eq [OF nonneg(1,2)] nat_less [OF nonneg(1,2)] nat_less [OF nonneg(2,1)]
    by blast+
  have months: "mi < mj \<longleftrightarrow> i mod 12 < j mod 12" "mj < mi \<longleftrightarrow> j mod 12 < i mod 12"
    unfolding mi_def mj_def Suc_less_eq
    using nat_less [OF nonneg(3,4)] nat_less [OF nonneg(4,3)]
    by blast+
  define a b c d where "a = i div 12" and "b = i mod 12" and "c = j div 12" and "d = j mod 12"
  have less: "i < j \<longleftrightarrow> a < c \<or> (a = c \<and> b < d)" "j < i \<longleftrightarrow> c < a \<or> (c = a \<and> d < b)"
    unfolding a_def b_def c_def d_def
    by (rule int_div_mod_less_iff, rule int_div_mod_less_iff)
  show ?thesis
    unfolding compare years months less
    unfolding a_def [symmetric] b_def [symmetric] c_def [symmetric] d_def [symmetric]
    by auto
qed


subsection \<open>The monthly totals and the trend\<close>

lemma monthlyTotals_by_key:
  "monthlyTotals txs =
     map (\<lambda>k. (k, Number_sum (map amount (filter (\<lambda>t. trendMonthKey (date t) = k) (expensesOf txs)))))
       (first_seen (map (\<lambda>t. trendMonthKey (date t)) (expensesOf txs)))"
  using Map_upsert_fold [of "\<lambda>t. trendMonthKey (date t)" "0::real" "\<lambda>v t. Number_add v (amount t)"
      "expensesOf txs"]
  by (simp add: monthlyTotals_def Let_def foldl_skip expensesOf_def Number_sum_foldl)

lemma padStart2_no_dash: "CHR ''-'' \<notin> set (padStart2 (nat_to_string j))"
  using nat_to_string_no_dash [of j] by (auto simp: padStart2_def)

lemma padStart2_inj:
  assumes "j < 100" and "k < 100" and "padStart2 (nat_to_string j) = padStart2 (nat_to_string k)"
  shows "j = k"
  using assms fixed_digits_eq_iff [of j 2 k] by (simp add: padStart2_two_digits)

text \<open>Different months have different keys, whatever the year.\<close>

lemma trendKeyOfIndex_inj:
  assumes "trendKeyOfIndex i = trendKeyOfIndex j"
  shows "i = j"
proof -
  have "int_to_string (i div 12) = int_to_string (j div 12)
        \<and> padStart2 (nat_to_string (nat (i mod 12) + 1)) = padStart2 (nat_to_string (nat (j mod 12) + 1))"
    using assms padStart2_no_dash
      split_at_last_dash [of "int_to_string (i div 12)" "padStart2 (nat_to_string (nat (i mod 12) + 1))"
        "int_to_string (j div 12)" "padStart2 (nat_to_string (nat (j mod 12) + 1))"]
    by (simp add: trendKeyOfIndex_def)
  moreover have "nat (i mod 12) + 1 < 100" and "nat (j mod 12) + 1 < 100"
    by (simp_all add: nat_less_iff)
  ultimately have "i div 12 = j div 12" and "nat (i mod 12) + 1 = nat (j mod 12) + 1"
    using int_to_string_inj padStart2_inj by blast+
  then have "i div 12 = j div 12" and "i mod 12 = j mod 12"
    by simp_all
  then show ?thesis
    by (metis div_mult_mod_eq)
qed

lemma four_digit_years_valid_months: "four_digit_years txs \<Longrightarrow> valid_months txs"
  by (simp add: four_digit_years_def valid_months_def list_all_iff)

lemma valid_monthIndex:
  assumes "four_digit_years txs" and "t \<in> set (expensesOf txs)"
  shows "12000 \<le> monthIndex t" and "monthIndex t \<le> 119999"
  using assms by (auto simp: four_digit_years_def monthIndex_def)

lemma monthlyTotals_by_index:
  assumes "valid_months txs"
  shows "monthlyTotals txs =
           map (\<lambda>i. (trendKeyOfIndex i, monthTotal txs i)) (first_seen (map monthIndex (expensesOf txs)))"
proof -
  let ?E = "expensesOf txs"
  have key: "trendMonthKey (date t) = trendKeyOfIndex (monthIndex t)" if "t \<in> set ?E" for t
    using assms that by (simp add: valid_months_def list_all_iff trendMonthKey_index)
  have keys: "map (\<lambda>t. trendMonthKey (date t)) ?E = map (\<lambda>t. trendKeyOfIndex (monthIndex t)) ?E"
    using key by simp
  have first: "first_seen (map (\<lambda>t. trendKeyOfIndex (monthIndex t)) ?E)
               = map trendKeyOfIndex (first_seen (map monthIndex ?E))"
    by (intro first_seen_map_inj) (blast dest: trendKeyOfIndex_inj)
  have total: "Number_sum (map amount (filter (\<lambda>t. trendMonthKey (date t) = trendKeyOfIndex i) ?E))
               = monthTotal txs i" for i
  proof -
    have "filter (\<lambda>t. trendMonthKey (date t) = trendKeyOfIndex i) ?E
          = filter (\<lambda>t. monthIndex t = i) ?E"
      using key by (intro filter_cong) (auto dest: trendKeyOfIndex_inj)
    then show ?thesis by (simp add: monthTotal_def)
  qed
  show ?thesis
    unfolding monthlyTotals_by_key keys first
    using total by (simp add: comp_def)
qed

text \<open>
  The keys are the strings \<open>${year}-${MM}\<close>, with the month padded to two digits and the
  year as it prints, and the months are ordered by their keys. For years of four digits
  this is the chronological order (\<open>localeCompare_trendKey\<close>). Beyond them it is not:
  with groceries of 100 in December 9999 and of 200 in January 10000 the key \<open>10000-01\<close>
  sorts before \<open>9999-12\<close>, and the detector compares the months in this order.
\<close>

lemma key_order_beyond_9999:
  "findTrends year_10000 =
     [\<lparr> ptype = trend, pdescription = SpendingOverTime decreasing (Num 50),
        transactions = [], severity = high, impact = 100 \<rparr>]
   \<and> monthTotal year_10000 (Min (expenseMonths year_10000)) = 100
   \<and> monthTotal year_10000 (Max (expenseMonths year_10000)) = 200
   \<and> trendBetween 100 200 =
     [\<lparr> ptype = trend, pdescription = SpendingOverTime increasing (Num 100),
        transactions = [], severity = high, impact = 100 \<rparr>]"
proof -
  have "findTrends year_10000 =
     [\<lparr> ptype = trend, pdescription = SpendingOverTime decreasing (Num 50),
        transactions = [], severity = high, impact = 100 \<rparr>]"
    by (simp add: trends_eval year_10000_def)
  moreover have "expenseMonths year_10000 = {119999, 120000}"
    by (simp add: expenseMonths_def expensesOf_def monthIndex_def year_10000_def)
  moreover have "monthTotal year_10000 119999 = 100" and "monthTotal year_10000 120000 = 200"
    by (simp_all add: monthTotal_def expensesOf_def monthIndex_def year_10000_def number_eval)
  moreover have "trendBetween 100 200 =
     [\<lparr> ptype = trend, pdescription = SpendingOverTime increasing (Num 100),
        transactions = [], severity = high, impact = 100 \<rparr>]"
    by (simp add: trendBetween_def percentChangeBetween_def number_eval)
  ultimately show ?thesis by simp
qed

text \<open>
  C9 (as stated: a trend is emitted exactly when the magnitude of
  (last - first) / first * 100 exceeds 15). Bread and milk for 1.00 and 1.20 in January
  2024 and bread for 1.87 in February 2024: the totals are 2.20 and 1.87, and the percent
  change is -15 in decimal arithmetic and of magnitude below 15 in exact arithmetic on
  the doubles, so its magnitude does not exceed 15. The code computes the change
  -0.33000000000000007 and the percent change -15.000000000000002 and emits a trend.
\<close>

theorem trend_without_exceeding:
  "expenseMonths bread_and_milk = {24288, 24289}
   \<and> spec_monthTotal bread_and_milk (Min (expenseMonths bread_and_milk)) = 1 + round_double 1.2
   \<and> spec_monthTotal bread_and_milk (Max (expenseMonths bread_and_milk)) = round_double 1.87
   \<and> \<not> 15 < \<bar>spec_percentChange (spec_monthTotal bread_and_milk (Min (expenseMonths bread_and_milk)))
                                      (spec_monthTotal bread_and_milk (Max (expenseMonths bread_and_milk)))\<bar>
   \<and> spec_percentChange 2.2 1.87 = - 15
   \<and> findTrends bread_and_milk =
       [\<lparr> ptype = trend,
          pdescription = SpendingOverTime decreasing (Num (round_double 15.000000000000002)),
          transactions = [], severity = medium, impact = round_double 0.33000000000000007 \<rparr>]"
proof -
  have months: "expenseMonths bread_and_milk = {24288, 24289}"
    by (simp add: expenseMonths_def expensesOf_def monthIndex_def bread_and_milk_def on_day_def)
  have first: "spec_monthTotal bread_and_milk 24288 = 1 + round_double 1.2"
    and last: "spec_monthTotal bread_and_milk 24289 = round_double 1.87"
    by (simp_all add: spec_monthTotal_def expensesOf_def monthIndex_def bread_and_milk_def on_day_def)
  have exact: "\<not> 15 < \<bar>spec_percentChange (1 + round_double 1.2) (round_double 1.87)\<bar>"
    by (simp add: spec_percentChange_def number_eval)
  have decimal: "spec_percentChange 2.2 1.87 = - 15"
    by (simp add: spec_percentChange_def)
  have trends: "findTrends bread_and_milk =
       [\<lparr> ptype = trend,
          pdescription = SpendingOverTime decreasing (Num (round_double 15.000000000000002)),
          transactions = [], severity = medium, impact = round_double 0.33000000000000007 \<rparr>]"
    by (simp add: trends_eval bread_and_milk_def)
  have ends: "Min {24288, 24289 :: int} = 24288" "Max {24288, 24289 :: int} = 24289"
    by simp_all
  show ?thesis
    unfolding months ends first last
    using exact decimal trends by simp
qed

text \<open>
  C9 (amended): the Trend Detector emits nothing when the expense transactions span fewer
  than 2 distinct calendar months; otherwise, when the years of all expenses have four
  digits (1000 to 9999), from the totals of only the chronologically first and last
  months and in the arithmetic of the doubles (no result overflowing), with change the
  rounded difference last - first and percentChange the rounded quotient change / first,
  times 100 and rounded, it emits exactly one \<open>trend\<close> pattern when the magnitude of
  percentChange exceeds 15 (and none otherwise), with direction increasing if the change
  is positive and decreasing otherwise, severity \<open>high\<close> if the magnitude exceeds 30 and
  \<open>medium\<close> otherwise, and impact the magnitude of the change.
\<close>

theorem trend_between_first_and_last_month:
  assumes "valid_months txs"
  shows "(card (expenseMonths txs) < 2 \<longrightarrow> findTrends txs = [])
         \<and> (four_digit_years txs \<longrightarrow>
              findTrends txs =
                (if card (expenseMonths txs) < 2 then []
                 else trendBetween (monthTotal txs (Min (expenseMonths txs)))
                                   (monthTotal txs (Max (expenseMonths txs)))))"
proof -
  let ?idx = "first_seen (map monthIndex (expensesOf txs))"
  let ?f = "\<lambda>i. (trendKeyOfIndex i, monthTotal txs i)"
  let ?cmp = "\<lambda>a b. localeCompare (fst a) (fst (b :: string \<times> real))"
  have totals: "monthlyTotals txs = map ?f ?idx"
    using assms by (rule monthlyTotals_by_index)
  have months: "set ?idx = expenseMonths txs"
    by (simp add: expenseMonths_def)
  have len: "length (monthlyTotals txs) = card (expenseMonths txs)"
    using distinct_card [of ?idx] by (simp add: totals expenseMonths_def)
  have few: "findTrends txs = []" if "card (expenseMonths txs) < 2"
    using that by (simp add: findTrends_def len)
  have many: "findTrends txs = trendBetween (monthTotal txs (Min (expenseMonths txs)))
                                            (monthTotal txs (Max (expenseMonths txs)))"
    if years: "four_digit_years txs" and two: "\<not> card (expenseMonths txs) < 2"
  proof -
    have valid: "12000 \<le> i \<and> i \<le> 119999" if mem: "i \<in> set ?idx" for i
    proof -
      obtain t where "t \<in> set (expensesOf txs)" "i = monthIndex t"
        using mem by auto
      then show ?thesis
        using valid_monthIndex [OF years] by blast
    qed
    have order: "\<forall>a \<in> set ?idx. \<forall>b \<in> set ?idx. (0 < ?cmp (?f a) (?f b)) = (b < a)"
    proof (intro ballI)
      fix a b
      assume "a \<in> set ?idx" and "b \<in> set ?idx"
      then have "localeCompare (trendKeyOfIndex a) (trendKeyOfIndex b)
                 = (if a < b then - 1 else if b < a then 1 else 0)"
        using valid by (intro localeCompare_trendKey) blast+
      then show "(0 < ?cmp (?f a) (?f b)) = (b < a)"
        by simp
    qed
    have sorted: "Array_sort ?cmp (monthlyTotals txs) = map ?f (sort ?idx)"
      unfolding totals using order by (rule Array_sort_map)
    have "?idx \<noteq> []"
      using two len totals by auto
    then have ne: "sort ?idx \<noteq> []"
      by (metis length_0_conv length_sort)
    have first: "snd (hd (map ?f (sort ?idx))) = monthTotal txs (Min (expenseMonths txs))"
      using ne sorted_hd_Min [of "sort ?idx"] by (simp add: hd_map expenseMonths_def)
    have last: "snd (last (map ?f (sort ?idx))) = monthTotal txs (Max (expenseMonths txs))"
      using ne sorted_last_Max [of "sort ?idx"] by (simp add: last_map expenseMonths_def)
    show ?thesis
      using two
      by (simp add: findTrends_def len sorted first last trendBetween_def
          percentChangeBetween_def Let_def del: js_div.simps js_mul.simps)
  qed
  show ?thesis
    using few many by simp
qed

theorem trend_between_first_and_last_month_witness:
  "valid_months june_999
   \<and> card (expenseMonths june_999) < 2
   \<and> findTrends june_999 = []
   \<and> valid_months two_months
   \<and> four_digit_years two_months
   \<and> expenseMonths two_months = {24288, 24289}
   \<and> findTrends two_months =
       [\<lparr> ptype = trend, pdescription = SpendingOverTime increasing (Num 25),
          transactions = [], severity = medium, impact = 250 \<rparr>]"
proof -
  have one: "valid_months june_999" and few: "card (expenseMonths june_999) < 2"
    by (simp_all add: valid_months_def expenseMonths_def expensesOf_def monthIndex_def june_999_def)
  have valid: "valid_months two_months" and years: "four_digit_years two_months"
    by (simp_all add: valid_months_def four_digit_years_def expensesOf_def two_months_def
        on_day_def)
  have months: "expenseMonths two_months = {24288, 24289}"
    by (simp add: expenseMonths_def expensesOf_def monthIndex_def two_months_def on_day_def)
  have first: "monthTotal two_months 24288 = 1000" and last: "monthTotal two_months 24289 = 1250"
    by (simp_all add: monthTotal_def expensesOf_def monthIndex_def two_months_def on_day_def
        number_eval)
  show ?thesis
    using trend_between_first_and_last_month [OF one] trend_between_first_and_last_month [OF valid]
      one few valid years
    by (simp add: months first last trendBetween_def percentChangeBetween_def number_eval)
qed

end
